theory Spec2Isabelle
  imports Main "HOL-Library.Monad_Syntax" "HOL-Library.Sublist"
begin

text \<open>
  A shallow embedding of \<^verbatim>\<open>lib/chain.js\<close>: the Chain objects, the execution contexts
  and the closure variables of \<open>all\<close> live in an explicit store, every function of the
  module that the statements below need is a function on that store, and the calls of
  handlers are recorded in a trace. The inner function \<open>resolve\<close> calls itself through
  the handlers it runs, so it is defined with fuel, and every statement about a run names
  an amount of fuel with which the run finishes. A run ends normally or with a JavaScript
  exception that nothing has caught; the changes made to the store before the exception
  stay.
\<close>

section \<open>JavaScript values\<close>

text \<open>
  The values that flow through a chain. \<open>VUndef\<close> is JavaScript's \<open>undefined\<close>; a hole of
  an array reads as \<open>undefined\<close> and is stored as \<open>VUndef\<close>. \<open>VNOW\<close>, \<open>VTICK\<close> and
  \<open>VPAUSE\<close> are the three marker objects of the module (compared by identity in the
  source), \<open>VObj\<close> is a plain object given by its properties, \<open>VError m\<close> is
  \<open>new Error(m)\<close> and \<open>VChain c\<close> is a reference to the Chain stored at address \<open>c\<close>.
  Foreign thenables (objects with a \<open>then\<close> method that are not Chains) are not values
  of the model.
\<close>

datatype val =
    VUndef
  | VNull
  | VBool bool
  | VNum int
  | VStr string
  | VArr "val list"
  | VError string
  | VObj "(string \<times> val) list"
  | VNOW
  | VTICK
  | VPAUSE
  | VChain nat

fun truthy :: "val \<Rightarrow> bool" where
  "truthy VUndef = False"
| "truthy VNull = False"
| "truthy (VBool b) = b"
| "truthy (VNum n) = (n \<noteq> 0)"
| "truthy (VStr s) = (s \<noteq> [])"
| "truthy v = True"

text \<open>\<open>isThenable\<close> and \<open>isChainable\<close>: a Chain has both a \<open>then\<close> and a \<open>chain\<close> method.\<close>

fun isThenable :: "val \<Rightarrow> bool" where
  "isThenable (VChain c) = True"
| "isThenable v = False"

fun isChainable :: "val \<Rightarrow> bool" where
  "isChainable (VChain c) = True"
| "isChainable v = False"

text \<open>\<open>Array.isArray(v) ? v : [v]\<close>, as an argument list.\<close>

fun as_args :: "val \<Rightarrow> val list" where
  "as_args (VArr vs) = vs"
| "as_args v = [v]"

text \<open>\<open>arguments[0]\<close>: \<open>undefined\<close> when no argument was passed.\<close>

fun arg0 :: "val list \<Rightarrow> val" where
  "arg0 [] = VUndef"
| "arg0 (v # vs) = v"

text \<open>Property lookup on a value; only plain objects carry properties here.\<close>

fun get_prop :: "val \<Rightarrow> string \<Rightarrow> val" where
  "get_prop (VObj ps) k = (case map_of ps k of None \<Rightarrow> VUndef | Some v \<Rightarrow> v)"
| "get_prop v k = VUndef"

text \<open>\<open>xs[k] = v\<close> on a JavaScript array: writing past the end extends it with holes.\<close>

definition set_index :: "val list \<Rightarrow> nat \<Rightarrow> val \<Rightarrow> val list" where
  "set_index xs k v =
     (if k < length xs then xs[k := v] else xs @ replicate (k - length xs) VUndef @ [v])"

text \<open>\<open>xs[k]\<close>: \<open>undefined\<close> out of range.\<close>

definition get_index :: "val list \<Rightarrow> nat \<Rightarrow> val" where
  "get_index xs k = (if k < length xs then xs ! k else VUndef)"

text \<open>\<open>xs.length = n\<close>.\<close>

definition set_length :: "val list \<Rightarrow> nat \<Rightarrow> val list" where
  "set_length xs n = take n xs @ replicate (n - length xs) VUndef"

section \<open>Handlers, steps and the store\<close>

text \<open>
  A handler is a JavaScript function queued on a chain. What a handler written by the
  user does to its chain goes through the execution context \<open>obj\<close> it is bound to, so a
  user handler \<open>User name body\<close> is given by a name (for the trace) and a body that maps
  the arguments it is called with to the context operations it performs, in order, and
  to how it ends: \<open>Return v\<close> or \<open>Throw v\<close>. The operations are \<open>delay\<close>/\<open>pause\<close>,
  \<open>next\<close>/\<open>resume\<close>, \<open>chain\<close>, \<open>fail\<close> and \<open>reject\<close> of \<open>obj\<close>; \<open>reject\<close> receives
  the whole argument list of the call. The adapters \<open>aCall\<close>, \<open>nCall\<close> and \<open>cCall\<close>
  are not modelled.

  The remaining constructors are the closures the library itself queues: the three of
  \<open>all\<close> (closing over the variables of one call of \<open>all\<close>, stored at an address) and
  the two that the resolution engine attaches to a Chain returned by a handler (closing
  over the chain that waits).
\<close>

datatype outcome = Return val | Throw val

datatype 'h op =
    Delay
  | Next "val list"
  | ChainOp "'h option" "'h option" bool
  | FailOp "'h option" bool
  | RejectOp "val list"

datatype handler =
    User string "val list \<Rightarrow> handler op list \<times> outcome"
  | AllInit nat
  | AllOk nat nat
  | AllErr nat nat
  | NestedOk nat
  | NestedErr nat

fun handler_name :: "handler \<Rightarrow> string" where
  "handler_name (User nm body) = nm"
| "handler_name (AllInit a) = ''all.init''"
| "handler_name (AllOk a k) = ''all.success''"
| "handler_name (AllErr a k) = ''all.failure''"
| "handler_name (NestedOk c) = ''nested.success''"
| "handler_name (NestedErr c) = ''nested.failure''"

text \<open>A queued step: the array \<open>[fallback, errback]\<close> or \<open>[fallback, errback, true]\<close>.
  \<open>None\<close> is a slot that is not a function.\<close>

record step =
  fallback :: "handler option"
  errback :: "handler option"
  noHijack :: bool

text \<open>The fields of a Chain. \<open>c_error = VUndef\<close> is the absent \<open>_error\<close> property
  (\<open>typeof this._error === 'undefined'\<close>); \<open>c_paused\<close> is false while \<open>_paused\<close> is
  undefined.\<close>

record chain_rec =
  c_resolving :: bool
  c_pending :: "step list"
  c_unPending :: "step list"
  c_errors :: "val list"
  c_value :: val
  c_immediate :: bool
  c_paused :: bool
  c_error :: val

text \<open>The local variables of one execution context \<open>obj\<close> (one settlement):
  the chain it belongs to (\<open>self\<close>), \<open>skip\<close> and \<open>nextOnce\<close>.\<close>

record ctx_rec =
  x_self :: nat
  x_skip :: bool
  x_nextOnce :: bool

text \<open>The local variables of one call of \<open>all\<close>; \<open>a_done k\<close> is the variable \<open>done\<close>
  of the observer of entry \<open>k\<close>.\<close>

record all_rec =
  a_values :: "val list"
  a_len :: nat
  a_complete :: nat
  a_results :: "val list"
  a_firstErr :: val
  a_errResults :: "val list option"
  a_ctx :: "nat option"
  a_done :: "nat \<Rightarrow> bool"

text \<open>One entry of the trace: handler \<open>name\<close> of chain \<open>c\<close> was called, as a failure
  handler or as a success handler, with these arguments (the context object that a
  step with \<open>noHijack\<close> receives as its first argument is left out).\<close>

datatype event = Call nat string bool "val list"

text \<open>
  The whole program state: the store of chains, of execution contexts and of \<open>all\<close>
  closures (each with its allocation counter), the module variable \<open>_immediate\<close>, the
  callbacks handed to \<open>nextTick\<close> and not yet run (each is
  \<open>function() { resolve.call(self) }\<close> for the chain \<open>self\<close> listed), and the trace.
\<close>

record world =
  chains :: "nat \<Rightarrow> chain_rec"
  nchains :: nat
  ctxs :: "nat \<Rightarrow> ctx_rec"
  nctxs :: nat
  alls :: "nat \<Rightarrow> all_rec"
  nalls :: nat
  g_immediate :: bool
  ticks :: "nat list"
  trace :: "event list"

definition upd_chain :: "nat \<Rightarrow> (chain_rec \<Rightarrow> chain_rec) \<Rightarrow> world \<Rightarrow> world" where
  "upd_chain c f w = w\<lparr>chains := (chains w)(c := f (chains w c))\<rparr>"

definition upd_ctx :: "nat \<Rightarrow> (ctx_rec \<Rightarrow> ctx_rec) \<Rightarrow> world \<Rightarrow> world" where
  "upd_ctx x f w = w\<lparr>ctxs := (ctxs w)(x := f (ctxs w x))\<rparr>"

definition upd_all :: "nat \<Rightarrow> (all_rec \<Rightarrow> all_rec) \<Rightarrow> world \<Rightarrow> world" where
  "upd_all a f w = w\<lparr>alls := (alls w)(a := f (alls w a))\<rparr>"

text \<open>\<open>setImmediate(immediate)\<close>.\<close>

definition setImmediate :: "val \<Rightarrow> world \<Rightarrow> world" where
  "setImmediate v w = w\<lparr>g_immediate := truthy v\<rparr>"

text \<open>
  The result of running a piece of the module: \<open>None\<close> is a run that did not finish
  within its fuel; \<open>Some (None, w)\<close> is a run that returned and left the state \<open>w\<close>;
  \<open>Some (Some e, w)\<close> is a run out of which the exception \<open>e\<close> propagates, in state \<open>w\<close>.
  \<open>and_then\<close> is the sequence of two statements: the second does not run when the first
  raised.
\<close>

type_synonym run = "(val option \<times> world) option"

definition and_then :: "run \<Rightarrow> (world \<Rightarrow> run) \<Rightarrow> run" where
  "and_then r f =
     (case r of
        None \<Rightarrow> None
      | Some (Some e, w) \<Rightarrow> Some (Some e, w)
      | Some (None, w) \<Rightarrow> f w)"

text \<open>The type of the inner function \<open>resolve\<close>, called on a chain with an argument list.\<close>

type_synonym resolver = "nat \<Rightarrow> val list \<Rightarrow> world \<Rightarrow> run"

section \<open>Queueing steps\<close>

text \<open>\<open>_chain(ctx, fallback, errback, noHijack, prepend)\<close>, for a \<open>fallback\<close> that is a
  function or not a function at all (a chainable \<open>fallback\<close> is not modelled).\<close>

definition chain_push :: "nat \<Rightarrow> handler option \<Rightarrow> handler option \<Rightarrow> bool \<Rightarrow> bool \<Rightarrow> world \<Rightarrow> world" where
  "chain_push c fb eb nh prepend w =
     (if fb \<noteq> None \<or> eb \<noteq> None then
        (if prepend
         then upd_chain c (\<lambda>ch. ch\<lparr>c_unPending := c_unPending ch @ [\<lparr>fallback = fb, errback = eb, noHijack = nh\<rparr>]\<rparr>) w
         else upd_chain c (\<lambda>ch. ch\<lparr>c_pending := c_pending ch @ [\<lparr>fallback = fb, errback = eb, noHijack = nh\<rparr>]\<rparr>) w)
      else w)"

text \<open>\<open>Chain.prototype.resolve\<close>, the trigger. \<open>R\<close> is the inner \<open>resolve\<close>.\<close>

definition Chain_resolve :: "resolver \<Rightarrow> nat \<Rightarrow> world \<Rightarrow> run" where
  "Chain_resolve R c w =
     (if c_pending (chains w c) = [] \<or> c_resolving (chains w c) then Some (None, w)
      else
        let w1 = upd_chain c (\<lambda>ch. ch\<lparr>c_resolving := True\<rparr>) w in
        if \<not> c_immediate (chains w1 c) then Some (None, w1\<lparr>ticks := ticks w1 @ [c]\<rparr>)
        else R c [] (upd_chain c (\<lambda>ch. ch\<lparr>c_immediate := g_immediate w1\<rparr>) w1))"

text \<open>\<open>Chain.prototype.chain\<close>.\<close>

definition Chain_chain :: "resolver \<Rightarrow> nat \<Rightarrow> handler option \<Rightarrow> handler option \<Rightarrow> bool \<Rightarrow> world \<Rightarrow> run" where
  "Chain_chain R c fb eb nh w = Chain_resolve R c (chain_push c fb eb nh False w)"

section \<open>The execution context\<close>

text \<open>\<open>delay\<close> (also \<open>pause\<close>) of the context at address \<open>x\<close>.\<close>

definition ctx_delay :: "nat \<Rightarrow> world \<Rightarrow> world" where
  "ctx_delay x w =
     (if x_skip (ctxs w x) then w
      else upd_chain (x_self (ctxs w x)) (\<lambda>ch. ch\<lparr>c_paused := True\<rparr>)
             (upd_ctx x (\<lambda>cx. cx\<lparr>x_skip := True\<rparr>) w))"

text \<open>\<open>next\<close> (also \<open>resume\<close>): \<open>nextOnce = skip = !(self._paused = false)\<close>, then
  \<open>resolve.apply(self, arguments)\<close>.\<close>

definition ctx_next :: "resolver \<Rightarrow> nat \<Rightarrow> val list \<Rightarrow> world \<Rightarrow> run" where
  "ctx_next R x args w =
     (if x_nextOnce (ctxs w x) then Some (None, w)
      else R (x_self (ctxs w x)) args
             (upd_chain (x_self (ctxs w x)) (\<lambda>ch. ch\<lparr>c_paused := False\<rparr>)
                (upd_ctx x (\<lambda>cx. cx\<lparr>x_nextOnce := True, x_skip := True\<rparr>) w)))"

text \<open>\<open>chain\<close> and \<open>fail\<close> of the context: the step goes to \<open>_unPending\<close>.\<close>

definition ctx_chain :: "nat \<Rightarrow> handler option \<Rightarrow> handler option \<Rightarrow> bool \<Rightarrow> world \<Rightarrow> world" where
  "ctx_chain x fb eb nh w = chain_push (x_self (ctxs w x)) fb eb nh True w"

definition ctx_fail :: "nat \<Rightarrow> handler option \<Rightarrow> bool \<Rightarrow> world \<Rightarrow> world" where
  "ctx_fail x eb nh w = chain_push (x_self (ctxs w x)) None eb nh True w"

text \<open>\<open>reject(reason)\<close> of the context, called with the argument list \<open>args\<close>: only the
  first argument is a parameter of the function.\<close>

definition ctx_reject :: "resolver \<Rightarrow> nat \<Rightarrow> val list \<Rightarrow> world \<Rightarrow> run" where
  "ctx_reject R x args w =
     (let reason = (if \<not> truthy (arg0 args) then VError ''No reason given'' else arg0 args)
      in ctx_next R x [] (upd_chain (x_self (ctxs w x)) (\<lambda>ch. ch\<lparr>c_error := reason\<rparr>) w))"

text \<open>The context operations of a handler body, in order. An exception that propagates
  out of one of them (out of the inner \<open>resolve\<close> that \<open>next\<close> or \<open>reject\<close> calls) ends
  the body there.\<close>

fun run_op :: "resolver \<Rightarrow> nat \<Rightarrow> handler op \<Rightarrow> world \<Rightarrow> run" where
  "run_op R x Delay w = Some (None, ctx_delay x w)"
| "run_op R x (Next args) w = ctx_next R x args w"
| "run_op R x (ChainOp fb eb nh) w = Some (None, ctx_chain x fb eb nh w)"
| "run_op R x (FailOp eb nh) w = Some (None, ctx_fail x eb nh w)"
| "run_op R x (RejectOp args) w = ctx_reject R x args w"

fun run_ops :: "resolver \<Rightarrow> nat \<Rightarrow> handler op list \<Rightarrow> world \<Rightarrow> run" where
  "run_ops R x [] w = Some (None, w)"
| "run_ops R x (p # ps) w = and_then (run_op R x p w) (run_ops R x ps)"

section \<open>The observers of \<open>all\<close>\<close>

text \<open>\<open>whenDone\<close> of the call of \<open>all\<close> stored at \<open>a\<close>. Calling a method of \<open>ctx\<close> while
  \<open>ctx\<close> is still undefined raises a TypeError. \<open>ctx.reject\<close> is called with two
  arguments.\<close>

definition whenDone :: "resolver \<Rightarrow> nat \<Rightarrow> world \<Rightarrow> run" where
  "whenDone R a w =
     (if a_complete (alls w a) = a_len (alls w a) then
        (case a_ctx (alls w a) of
           None \<Rightarrow> Some (Some (VError ''TypeError''), w)
         | Some x \<Rightarrow>
             (case a_errResults (alls w a) of
                Some er \<Rightarrow> ctx_reject R x [a_firstErr (alls w a), VArr er] w
              | None \<Rightarrow> ctx_next R x [VArr (a_results (alls w a))] w))
      else Some (None, w))"

section \<open>Calling a handler\<close>

text \<open>How a handler call ends when its body has run as \<open>r\<close> and would then return \<open>v\<close>:
  an exception that propagates out of the body is what the handler throws.\<close>

definition completes :: "run \<Rightarrow> val \<Rightarrow> (outcome \<times> world) option" where
  "completes r v =
     (case r of
        None \<Rightarrow> None
      | Some (Some e, w) \<Rightarrow> Some (Throw e, w)
      | Some (None, w) \<Rightarrow> Some (Return v, w))"

text \<open>
  \<open>invoke R x h args w\<close> runs handler \<open>h\<close>, bound to the execution context at \<open>x\<close>, on
  \<open>args\<close>, and gives how the call ends: \<open>Return v\<close> or \<open>Throw e\<close>. The closures of the
  library are transcribed statement by statement: \<open>AllInit\<close> is
  \<open>function() { ctx = this.delay(); }\<close>, \<open>AllOk a k\<close> and \<open>AllErr a k\<close> are the two
  observers that \<open>all\<close> attaches to entry \<open>k\<close>, \<open>NestedOk d\<close> and \<open>NestedErr d\<close> are
  the two functions that chain \<open>d\<close> attaches to a Chain returned by one of its handlers.
\<close>

fun invoke :: "resolver \<Rightarrow> nat \<Rightarrow> handler \<Rightarrow> val list \<Rightarrow> world \<Rightarrow> (outcome \<times> world) option" where
  "invoke R x (User nm body) args w =
     (case run_ops R x (fst (body args)) w of
        None \<Rightarrow> None
      | Some (Some e, w1) \<Rightarrow> Some (Throw e, w1)
      | Some (None, w1) \<Rightarrow> Some (snd (body args), w1))"
| "invoke R x (AllInit a) args w =
     Some (Return VUndef, upd_all a (\<lambda>s. s\<lparr>a_ctx := Some x\<rparr>) (ctx_delay x w))"
| "invoke R x (AllOk a k) args w =
     (if a_done (alls w a) k then Some (Return VUndef, w)
      else
        (case whenDone R a
                (upd_all a (\<lambda>s. s\<lparr>a_complete := Suc (a_complete s),
                                   a_done := (a_done s)(k := True),
                                   a_results := set_index (a_results s) k
                                     (if length args > 1 then VArr args else arg0 args)\<rparr>) w) of
           None \<Rightarrow> None
         | Some (Some e, w2) \<Rightarrow> Some (Throw e, w2)
         | Some (None, w2) \<Rightarrow>
             Some (if isChainable (get_index (a_values (alls w2 a)) k)
                   then Return (get_index (a_results (alls w2 a)) k)
                   else Return VUndef, w2)))"
| "invoke R x (AllErr a k) args w =
     (if a_done (alls w a) k then Some (Return VUndef, w)
      else
        (case whenDone R a
                (upd_all a (\<lambda>s. s\<lparr>a_complete := Suc (a_complete s),
                                   a_done := (a_done s)(k := True),
                                   a_firstErr := (if \<not> truthy (a_firstErr s) then arg0 args
                                                  else a_firstErr s),
                                   a_errResults := Some (set_index
                                     (case a_errResults s of None \<Rightarrow> [] | Some er \<Rightarrow> er)
                                     k (arg0 args))\<rparr>) w) of
           None \<Rightarrow> None
         | Some (Some e, w2) \<Rightarrow> Some (Throw e, w2)
         | Some (None, w2) \<Rightarrow>
             (if isChainable (get_index (a_values (alls w2 a)) k)
              then completes (ctx_reject R x [arg0 args] w2) VUndef
              else Some (Return VUndef, w2))))"
| "invoke R x (NestedOk d) args w =
     completes (R d args (upd_chain d (\<lambda>ch. ch\<lparr>c_paused := False\<rparr>) w)) VUndef"
| "invoke R x (NestedErr d) args w =
     completes
       (and_then (R d [] (upd_chain d (\<lambda>ch. ch\<lparr>c_paused := False, c_error := arg0 args\<rparr>) w))
          (ctx_reject R x [arg0 args]))
       VUndef"

section \<open>The resolution engine\<close>

text \<open>The address of a Chain value; used only under \<open>isChainable\<close>.\<close>

fun chain_addr :: "val \<Rightarrow> nat" where
  "chain_addr (VChain d) = d"

text \<open>The end of the inner \<open>resolve\<close>:
  \<open>if (this._pending.length === 0) this._resolving = false\<close>.\<close>

definition finish :: "nat \<Rightarrow> world \<Rightarrow> world" where
  "finish c w =
     (if c_pending (chains w c) = [] then upd_chain c (\<lambda>ch. ch\<lparr>c_resolving := False\<rparr>) w
      else w)"

text \<open>A run followed by the end of the inner \<open>resolve\<close>, which is not reached when the run
  raised.\<close>

definition finishing :: "nat \<Rightarrow> run \<Rightarrow> run" where
  "finishing c r = and_then r (\<lambda>w. Some (None, finish c w))"

text \<open>
  What the inner \<open>resolve\<close> does with the \<open>value\<close> of a handler call, once \<open>undefined\<close> has
  been replaced: continue without arguments when the context was suspended or resumed,
  the chain is paused or an error is pending; wait for a returned Chain; otherwise store
  the value and continue with it. A value is chainable exactly when it is a Chain, so the
  branch for a foreign thenable is never taken.
\<close>

definition settle :: "resolver \<Rightarrow> nat \<Rightarrow> nat \<Rightarrow> val \<Rightarrow> world \<Rightarrow> run" where
  "settle R c x v w =
     (if x_skip (ctxs w x) \<or> c_paused (chains w c) \<or> c_error (chains w c) \<noteq> VUndef
      then R c [] w
      else if isChainable v then
        finishing c
          (Chain_chain R (chain_addr v) (Some (NestedOk c)) (Some (NestedErr c)) False
             (upd_chain c (\<lambda>ch. ch\<lparr>c_paused := True\<rparr>) w))
      else
        finishing c
          (R c (as_args v)
             (if v \<noteq> VUndef then upd_chain c (\<lambda>ch. ch\<lparr>c_value := v\<rparr>) w else w)))"

text \<open>The failure branch: the pending error is pushed on \<open>_errors\<close>, the handler is
  called with it, a normal return deletes \<open>_error\<close>, a throw replaces it (this catch
  clause logs nothing), and an \<open>undefined\<close> value becomes \<open>[self._error]\<close>.\<close>

definition run_errback :: "resolver \<Rightarrow> nat \<Rightarrow> nat \<Rightarrow> handler \<Rightarrow> world \<Rightarrow> run" where
  "run_errback R c x h w =
     (let e = c_error (chains w c) in
      case invoke R x h [e]
             ((upd_chain c (\<lambda>ch. ch\<lparr>c_errors := c_errors ch @ [e]\<rparr>) w)
                \<lparr>trace := trace w @ [Call c (handler_name h) True [e]]\<rparr>) of
        None \<Rightarrow> None
      | Some (Return v, w1) \<Rightarrow>
          settle R c x (if v = VUndef then VArr [VUndef] else v)
            (upd_chain c (\<lambda>ch. ch\<lparr>c_error := VUndef\<rparr>) w1)
      | Some (Throw e', w1) \<Rightarrow>
          settle R c x (VArr [e']) (upd_chain c (\<lambda>ch. ch\<lparr>c_error := e'\<rparr>) w1))"

text \<open>
  The catch clause of the success branch ends with
  \<open>console.log('err', e && e.stack || e.message || e)\<close>. The argument is
  \<open>((e && e.stack) || e.message) || e\<close>: when \<open>e\<close> is \<open>null\<close> or \<open>undefined\<close>,
  \<open>e && e.stack\<close> is \<open>e\<close>, which is falsy, so \<open>e.message\<close> is evaluated and raises a
  TypeError. Reading a property of any other value does not raise.
\<close>

definition log_raises :: "val \<Rightarrow> bool" where
  "log_raises e \<longleftrightarrow> e = VNull \<or> e = VUndef"

text \<open>The success branch: the handler is called with the carried arguments; a throw
  sets \<open>_error\<close> and is logged, and the TypeError of the logging propagates out of the
  inner \<open>resolve\<close>; an \<open>undefined\<close> value becomes \<open>[]\<close>.\<close>

definition run_fallback :: "resolver \<Rightarrow> nat \<Rightarrow> nat \<Rightarrow> handler \<Rightarrow> val list \<Rightarrow> world \<Rightarrow> run" where
  "run_fallback R c x h args w =
     (case invoke R x h args (w\<lparr>trace := trace w @ [Call c (handler_name h) False args]\<rparr>) of
        None \<Rightarrow> None
      | Some (Return v, w1) \<Rightarrow> settle R c x (if v = VUndef then VArr [] else v) w1
      | Some (Throw e, w1) \<Rightarrow>
          (if log_raises e
           then Some (Some (VError ''TypeError''), upd_chain c (\<lambda>ch. ch\<lparr>c_error := e\<rparr>) w1)
           else settle R c x (VArr []) (upd_chain c (\<lambda>ch. ch\<lparr>c_error := e\<rparr>) w1)))"

text \<open>The entry of the inner \<open>resolve\<close>: without arguments the carried arguments are
  \<open>Array.isArray(this._value) ? this._value : [this._value]\<close>, otherwise \<open>_value\<close>
  becomes the argument array.\<close>

definition entry_args :: "nat \<Rightarrow> val list \<Rightarrow> world \<Rightarrow> val list" where
  "entry_args c args0 w = (if args0 = [] then as_args (c_value (chains w c)) else args0)"

definition entry_world :: "nat \<Rightarrow> val list \<Rightarrow> world \<Rightarrow> world" where
  "entry_world c args0 w =
     (if args0 = [] then w else upd_chain c (\<lambda>ch. ch\<lparr>c_value := VArr args0\<rparr>) w)"

text \<open>\<open>if (this._unPending.length) { unshift all of _unPending onto _pending; clear it }\<close>.\<close>

definition merge_unPending :: "nat \<Rightarrow> world \<Rightarrow> world" where
  "merge_unPending c w =
     (if c_unPending (chains w c) \<noteq> []
      then upd_chain c (\<lambda>ch. ch\<lparr>c_pending := c_unPending ch @ c_pending ch,
                                  c_unPending := []\<rparr>) w
      else w)"

text \<open>The execution context \<open>obj\<close> of one settlement is allocated at address \<open>nctxs w\<close>,
  with \<open>skip = false\<close> and \<open>nextOnce = false\<close>.\<close>

definition new_ctx :: "nat \<Rightarrow> world \<Rightarrow> world" where
  "new_ctx c w =
     w\<lparr>ctxs := (ctxs w)(nctxs w := \<lparr>x_self = c, x_skip = False, x_nextOnce = False\<rparr>),
       nctxs := Suc (nctxs w)\<rparr>"

text \<open>The inner \<open>resolve\<close> after \<open>fns = this._pending.shift()\<close>: a step without any
  function is passed over; with an error pending the failure slot acts, otherwise the
  success slot; a slot that is not a function passes the step over with the same
  arguments.\<close>

definition dispatch :: "resolver \<Rightarrow> nat \<Rightarrow> val list \<Rightarrow> step \<Rightarrow> world \<Rightarrow> run" where
  "dispatch R c args fns w =
     (if fallback fns = None \<and> errback fns = None then R c args w
      else if c_error (chains (new_ctx c w) c) \<noteq> VUndef then
        (case errback fns of
           None \<Rightarrow> R c args (new_ctx c w)
         | Some h \<Rightarrow> run_errback R c (nctxs w) h (new_ctx c w))
      else
        (case fallback fns of
           None \<Rightarrow> R c args (new_ctx c w)
         | Some h \<Rightarrow> run_fallback R c (nctxs w) h args (new_ctx c w)))"

text \<open>The body of the inner \<open>resolve\<close>, with its recursive calls taken from \<open>R\<close>.\<close>

definition resolve_body :: "resolver \<Rightarrow> resolver" where
  "resolve_body R c args0 w0 =
     (if c_pending (chains (entry_world c args0 w0) c) = [] then
        Some (None, upd_chain c (\<lambda>ch. ch\<lparr>c_resolving := False\<rparr>) (entry_world c args0 w0))
      else if c_paused (chains (entry_world c args0 w0) c)
      then Some (None, entry_world c args0 w0)
      else
        dispatch R c (entry_args c args0 w0)
          (hd (c_pending (chains (merge_unPending c (entry_world c args0 w0)) c)))
          (upd_chain c (\<lambda>ch. ch\<lparr>c_pending := tl (c_pending ch)\<rparr>)
             (merge_unPending c (entry_world c args0 w0))))"

text \<open>The inner \<open>resolve\<close>. Its recursion is not bounded by the queue, since a handler
  may queue further steps, so it carries fuel: one unit per call of \<open>resolve\<close>.\<close>

primrec resolve :: "nat \<Rightarrow> resolver" where
  "resolve 0 = (\<lambda>c args w. None)"
| "resolve (Suc n) = resolve_body (resolve n)"

text \<open>Running the oldest callback handed to \<open>nextTick\<close>. An exception that propagates
  out of it is uncaught.\<close>

definition run_tick :: "resolver \<Rightarrow> world \<Rightarrow> run" where
  "run_tick R w =
     (case ticks w of [] \<Rightarrow> Some (None, w) | c # cs \<Rightarrow> R c [] (w\<lparr>ticks := cs\<rparr>))"

section \<open>Constructing chains\<close>

fun typeof_object :: "val \<Rightarrow> bool" where
  "typeof_object VUndef = False"
| "typeof_object (VBool b) = False"
| "typeof_object (VNum n) = False"
| "typeof_object (VStr s) = False"
| "typeof_object v = True"

text \<open>The fields that the constructor \<open>Chain\<close> sets before it calls \<open>this.chain\<close>, from
  the module variable \<open>_immediate\<close> and the initial value. Reading \<open>value.tick\<close> of
  \<open>null\<close> is a TypeError. (\<open>_report\<close> is false and the diagnostic output is left out.)\<close>

definition Chain_fields :: "bool \<Rightarrow> val \<Rightarrow> val + chain_rec" where
  "Chain_fields g v =
     (let ch0 = \<lparr>c_resolving = False, c_pending = [], c_unPending = [], c_errors = [],
                 c_value = VUndef, c_immediate = g, c_paused = False, c_error = VUndef\<rparr>
      in
      if v = VNOW \<or> v = VTICK \<or> v = VPAUSE then
        Inr (if v = VNOW then ch0\<lparr>c_immediate := True\<rparr>
             else if v = VTICK then ch0\<lparr>c_immediate := False\<rparr>
             else ch0\<lparr>c_immediate := g, c_paused := True\<rparr>)
      else if typeof_object v then
        (if v = VNull then Inl (VError ''TypeError'')
         else
           let ch1 = ch0\<lparr>c_value := v, c_immediate := g\<rparr>;
               ch2 = (if get_prop v ''tick'' = VTICK
                      then ch1\<lparr>c_immediate := False, c_value := get_prop v ''value''\<rparr> else ch1);
               ch3 = (if get_prop v ''now'' = VNOW
                      then ch2\<lparr>c_immediate := True, c_value := get_prop v ''value''\<rparr> else ch2);
               ch4 = (if get_prop v ''pause'' = VPAUSE
                      then ch3\<lparr>c_paused := True, c_value := get_prop v ''value''\<rparr> else ch3)
           in Inr ch4)
      else Inr (ch0\<lparr>c_immediate := g, c_value := v\<rparr>))"

text \<open>\<open>new Chain(value, fallback, errback, noHijack)\<close>: the new chain's address, or the
  exception thrown (by the constructor itself, or out of the drain that \<open>this.chain\<close>
  starts).\<close>

definition Chain_new :: "resolver \<Rightarrow> val \<Rightarrow> handler option \<Rightarrow> handler option \<Rightarrow> bool \<Rightarrow> world
    \<Rightarrow> ((val + nat) \<times> world) option" where
  "Chain_new R v fb eb nh w =
     (case Chain_fields (g_immediate w) v of
        Inl e \<Rightarrow> Some (Inl e, w)
      | Inr ch \<Rightarrow>
          (case Chain_chain R (nchains w) fb eb nh
                  (w\<lparr>chains := (chains w)(nchains w := ch), nchains := Suc (nchains w)\<rparr>) of
             None \<Rightarrow> None
           | Some (Some e, w1) \<Rightarrow> Some (Inl e, w1)
           | Some (None, w1) \<Rightarrow> Some (Inr (nchains w), w1)))"

definition start :: "resolver \<Rightarrow> val \<Rightarrow> handler option \<Rightarrow> handler option \<Rightarrow> world
    \<Rightarrow> ((val + nat) \<times> world) option" where
  "start R v fb eb w = Chain_new R v fb eb False w"

definition now :: "resolver \<Rightarrow> val \<Rightarrow> handler option \<Rightarrow> handler option \<Rightarrow> world
    \<Rightarrow> ((val + nat) \<times> world) option" where
  "now R v fb eb w = start R (VObj [(''now'', VNOW), (''value'', v)]) fb eb w"

text \<open>The module's \<open>fail(err)\<close>: \<open>start()\<close>, then \<open>ch._error = err || new Error()\<close>.\<close>

definition fail :: "resolver \<Rightarrow> val \<Rightarrow> world \<Rightarrow> ((val + nat) \<times> world) option" where
  "fail R err w =
     (case start R VUndef None None w of
        None \<Rightarrow> None
      | Some (Inl e, w1) \<Rightarrow> Some (Inl e, w1)
      | Some (Inr ch, w1) \<Rightarrow>
          Some (Inr ch, upd_chain ch (\<lambda>r. r\<lparr>c_error := (if truthy err then err else VError [])\<rparr>) w1))"

section \<open>\<open>spread\<close>\<close>

text \<open>The function \<open>_callback\<close> of \<open>Chain.prototype.spread\<close>, as a handler body.\<close>

definition spread_callback :: "val list \<Rightarrow> handler op list \<times> outcome" where
  "spread_callback args =
     (if length args = 1 then
        (case arg0 args of
           VArr res \<Rightarrow> ([Next res], Return VUndef)
         | v \<Rightarrow> ([], Return v))
      else ([Next args], Return VUndef))"

definition Chain_spread :: "resolver \<Rightarrow> nat \<Rightarrow> handler option \<Rightarrow> handler option \<Rightarrow> bool \<Rightarrow> world \<Rightarrow> run" where
  "Chain_spread R c fb eb nh w =
     and_then (Chain_chain R c (Some (User ''_callback'' spread_callback)) None False w)
       (Chain_chain R c fb eb nh)"

section \<open>\<open>all\<close>\<close>

text \<open>The loop of \<open>all\<close> over the entries from index \<open>i\<close> on: a value that is not
  thenable is stored at once, a Chain gets the two observers (a thenable of the model is
  a Chain, so the method called is always \<open>chain\<close>).\<close>

fun all_loop :: "resolver \<Rightarrow> nat \<Rightarrow> nat \<Rightarrow> val list \<Rightarrow> world \<Rightarrow> run" where
  "all_loop R a i [] w = Some (None, w)"
| "all_loop R a i (v # vs) w =
     (if \<not> isThenable v then
        all_loop R a (Suc i) vs
          (upd_all a (\<lambda>s. s\<lparr>a_results := set_index (a_results s) i v,
                             a_complete := Suc (a_complete s)\<rparr>) w)
      else
        and_then (Chain_chain R (chain_addr v) (Some (AllOk a i)) (Some (AllErr a i)) False w)
          (all_loop R a (Suc i) vs))"

text \<open>\<open>all(values)\<close>: the address of the result chain, or the exception thrown.\<close>

definition all :: "resolver \<Rightarrow> val \<Rightarrow> world \<Rightarrow> ((val + nat) \<times> world) option" where
  "all R values w =
     (case values of
        VArr vs \<Rightarrow>
          (if length vs = 0 then now R VUndef None None w
           else
             (case now R VUndef (Some (AllInit (nalls w))) None
                     (w\<lparr>alls := (alls w)(nalls w :=
                            \<lparr>a_values = vs, a_len = length vs, a_complete = 0, a_results = [],
                             a_firstErr = VUndef, a_errResults = None, a_ctx = None,
                             a_done = (\<lambda>k. False)\<rparr>),
                         nalls := Suc (nalls w)\<rparr>) of
                None \<Rightarrow> None
              | Some (Inl e, w1) \<Rightarrow> Some (Inl e, w1)
              | Some (Inr ch, w1) \<Rightarrow>
                  (case all_loop R (nalls w) 0 vs
                          (upd_all (nalls w)
                             (\<lambda>s. s\<lparr>a_results := set_length (a_results s) (length vs)\<rparr>) w1) of
                     None \<Rightarrow> None
                   | Some (Some e, w2) \<Rightarrow> Some (Inl e, w2)
                   | Some (None, w2) \<Rightarrow>
                       (if a_complete (alls w2 (nalls w)) = length vs then
                          (case whenDone R (nalls w) w2 of
                             None \<Rightarrow> None
                           | Some (Some e, w3) \<Rightarrow> Some (Inl e, w3)
                           | Some (None, w3) \<Rightarrow> Some (Inr ch, w3))
                        else Some (Inr ch, w2)))))
      | _ \<Rightarrow> Some (Inl (VError ''You must provide an Array to Chain#all.''), w))"

text \<open>The state of a program that has just loaded the module.\<close>

definition empty_chain :: chain_rec where
  "empty_chain = \<lparr>c_resolving = False, c_pending = [], c_unPending = [], c_errors = [],
                  c_value = VUndef, c_immediate = False, c_paused = False, c_error = VUndef\<rparr>"

definition init_world :: world where
  "init_world = \<lparr>chains = (\<lambda>c. empty_chain), nchains = 0,
                 ctxs = (\<lambda>x. \<lparr>x_self = 0, x_skip = False, x_nextOnce = False\<rparr>), nctxs = 0,
                 alls = (\<lambda>a. \<lparr>a_values = [], a_len = 0, a_complete = 0, a_results = [],
                              a_firstErr = VUndef, a_errResults = None, a_ctx = None,
                              a_done = (\<lambda>k. False)\<rparr>), nalls = 0,
                 g_immediate = False, ticks = [], trace = []\<rparr>"

section \<open>Handlers and queue states used in the statements\<close>

text \<open>A handler body that only returns \<open>v\<close>, one that only throws \<open>v\<close>, and one that
  performs the context operations \<open>ops\<close> and then returns \<open>undefined\<close>.\<close>

definition returns :: "val \<Rightarrow> val list \<Rightarrow> handler op list \<times> outcome" where
  "returns v args = ([], Return v)"

definition throws :: "val \<Rightarrow> val list \<Rightarrow> handler op list \<times> outcome" where
  "throws v args = ([], Throw v)"

definition performs :: "handler op list \<Rightarrow> val list \<Rightarrow> handler op list \<times> outcome" where
  "performs ops args = (ops, Return VUndef)"

text \<open>The step queued by \<open>chain(f)\<close> and the step queued by \<open>fail(f)\<close>, for a user
  handler.\<close>

definition success_only :: "string \<Rightarrow> (val list \<Rightarrow> handler op list \<times> outcome) \<Rightarrow> step" where
  "success_only nm body = \<lparr>fallback = Some (User nm body), errback = None, noHijack = False\<rparr>"

definition failure_only :: "string \<Rightarrow> (val list \<Rightarrow> handler op list \<times> outcome) \<Rightarrow> step" where
  "failure_only nm body = \<lparr>fallback = None, errback = Some (User nm body), noHijack = False\<rparr>"

text \<open>The first of the two steps queued by \<open>spread\<close>.\<close>

definition spread_step :: step where
  "spread_step = \<lparr>fallback = Some (User ''_callback'' spread_callback), errback = None,
                  noHijack = False\<rparr>"

text \<open>A chain about to be drained: nothing injected, not paused, no error pending.\<close>

definition ready :: "nat \<Rightarrow> world \<Rightarrow> bool" where
  "ready c w \<longleftrightarrow>
     c_unPending (chains w c) = [] \<and> \<not> c_paused (chains w c) \<and> c_error (chains w c) = VUndef"

text \<open>The errors with which failure handlers of chain \<open>c\<close> were called, in trace order.\<close>

fun failure_calls :: "nat \<Rightarrow> event list \<Rightarrow> val list" where
  "failure_calls c [] = []"
| "failure_calls c (Call d nm failed args # evs) =
     (if failed \<and> d = c then arg0 args # failure_calls c evs else failure_calls c evs)"

text \<open>Projections of a final state, for the statements about concrete programs.
  \<open>run_view f r\<close> is the exception with which the run \<open>r\<close> ended, if any, and \<open>f\<close> of
  its final state.\<close>

definition flags_of :: "nat \<Rightarrow> world \<Rightarrow> bool \<times> bool" where
  "flags_of c w = (c_immediate (chains w c), g_immediate w)"

definition error_state :: "nat \<Rightarrow> world \<Rightarrow> val \<times> val list" where
  "error_state c w = (c_error (chains w c), c_errors (chains w c))"

definition value_state :: "nat \<Rightarrow> world \<Rightarrow> val \<times> val \<times> bool \<times> step list" where
  "value_state c w =
     (c_value (chains w c), c_error (chains w c), c_paused (chains w c), c_pending (chains w c))"

definition queue_state :: "nat \<Rightarrow> world \<Rightarrow> bool \<times> nat \<times> val \<times> nat list" where
  "queue_state c w =
     (c_resolving (chains w c), length (c_pending (chains w c)), c_error (chains w c), ticks w)"

definition all_errors :: "nat \<Rightarrow> world \<Rightarrow> val \<times> val list option" where
  "all_errors a w = (a_firstErr (alls w a), a_errResults (alls w a))"

definition run_view :: "(world \<Rightarrow> 'a) \<Rightarrow> run \<Rightarrow> (val option \<times> 'a) option" where
  "run_view f r = (case r of None \<Rightarrow> None | Some (ex, w) \<Rightarrow> Some (ex, f w))"

section \<open>Concrete programs\<close>

text \<open>A program is a sequence of calls of the module and of ticks; it stops at the first
  exception that reaches it. \<open>with_chain\<close> continues with the chain that a constructor
  call returned.\<close>

definition with_chain :: "((val + nat) \<times> world) option \<Rightarrow> (nat \<Rightarrow> world \<Rightarrow> run) \<Rightarrow> run" where
  "with_chain r f =
     (case r of
        None \<Rightarrow> None
      | Some (Inl e, w) \<Rightarrow> Some (Some e, w)
      | Some (Inr c, w) \<Rightarrow> f c w)"

text \<open>\<open>setImmediate(true); start(TICK, h)\<close>, then one tick.\<close>

definition tick_chain_program :: run where
  "tick_chain_program =
     with_chain (start (resolve 3) VTICK (Some (User ''h'' (returns (VNum 1)))) None
                   (setImmediate (VBool True) init_world))
       (\<lambda>c w. run_tick (resolve 3) w)"

text \<open>\<open>now().chain(h)\<close>.\<close>

definition now_chain_program :: run where
  "now_chain_program =
     with_chain (now (resolve 3) VUndef None None init_world)
       (\<lambda>c w. Chain_chain (resolve 3) c (Some (User ''h'' (returns (VNum 1)))) None False w)"

text \<open>\<open>start(7, s1).chain(s2)\<close> with \<open>s1\<close> returning \<open>undefined\<close>, then one tick.\<close>

definition undefined_return_program :: run where
  "undefined_return_program =
     with_chain (start (resolve 4) (VNum 7) (Some (User ''s1'' (returns VUndef))) None init_world)
       (\<lambda>c w. and_then (Chain_chain (resolve 4) c (Some (User ''s2'' (returns VUndef))) None False w)
                 (run_tick (resolve 4)))"

text \<open>\<open>start(7, s1).fail(s2).chain(s3)\<close> with \<open>s1\<close> throwing the value given, then one
  tick.\<close>

definition throw_program :: "val \<Rightarrow> run" where
  "throw_program e =
     with_chain (start (resolve 5) (VNum 7) (Some (User ''s1'' (throws e))) None init_world)
       (\<lambda>c w. and_then (Chain_chain (resolve 5) c None (Some (User ''s2'' (returns (VNum 9)))) False w)
         (\<lambda>w1. and_then (Chain_chain (resolve 5) c (Some (User ''s3'' (returns (VNum 10)))) None False w1)
                 (run_tick (resolve 5))))"

text \<open>\<open>start(7, s1)\<close> with \<open>s1\<close> throwing \<open>"boom"\<close> and no failure handler, then one
  tick.\<close>

definition unhandled_program :: run where
  "unhandled_program =
     with_chain (start (resolve 3) (VNum 7) (Some (User ''s1'' (throws (VStr ''boom'')))) None
                   init_world)
       (\<lambda>c w. run_tick (resolve 3) w)"


text \<open>\<open>all([])\<close>, then \<open>chain(h)\<close> on the result.\<close>

definition all_empty_program :: run where
  "all_empty_program =
     with_chain (all (resolve 3) (VArr []) init_world)
       (\<lambda>c w. Chain_chain (resolve 3) c (Some (User ''h'' (returns VUndef))) None False w)"

text \<open>\<open>all([1, 2, now(3)])\<close>, then \<open>chain(h)\<close> on the result and one tick. The result
  chain is at address 1.\<close>

definition all_values_program :: run where
  "all_values_program =
     with_chain (now (resolve 6) (VNum 3) None None init_world)
       (\<lambda>c3 w1. with_chain (all (resolve 6) (VArr [VNum 1, VNum 2, VChain c3]) w1)
         (\<lambda>c w2. and_then (Chain_chain (resolve 6) c (Some (User ''h'' (returns VUndef))) None False w2)
                   (run_tick (resolve 6))))"

text \<open>\<open>all([now(1), fail("boom")])\<close>, one tick (the failed chain is deferred), then
  \<open>fail(h)\<close> on the result and one more tick. The result chain is at address 2 and the
  variables of the call of \<open>all\<close> are at address 0.\<close>

definition all_failure_program :: run where
  "all_failure_program =
     with_chain (now (resolve 6) (VNum 1) None None init_world)
       (\<lambda>ok w1. with_chain (fail (resolve 6) (VStr ''boom'') w1)
         (\<lambda>bad w2. with_chain (all (resolve 6) (VArr [VChain ok, VChain bad]) w2)
           (\<lambda>c w3. and_then (run_tick (resolve 6) w3)
             (\<lambda>w4. and_then (Chain_chain (resolve 6) c None
                               (Some (User ''h'' (returns VUndef))) False w4)
                     (run_tick (resolve 6))))))"

text \<open>\<open>all([start(1), now(2)])\<close>: the second entry settles first (inside \<open>all\<close>), the
  first at the tick; then \<open>chain(h)\<close> on the result and one more tick. The result chain
  is at address 2.\<close>

definition all_order_program :: run where
  "all_order_program =
     with_chain (start (resolve 6) (VNum 1) None None init_world)
       (\<lambda>late w1. with_chain (now (resolve 6) (VNum 2) None None w1)
         (\<lambda>early w2. with_chain (all (resolve 6) (VArr [VChain late, VChain early]) w2)
           (\<lambda>c w3. and_then (run_tick (resolve 6) w3)
             (\<lambda>w4. and_then (Chain_chain (resolve 6) c
                               (Some (User ''h'' (returns VUndef))) None False w4)
                     (run_tick (resolve 6))))))"

text \<open>\<open>now(v).spread(f)\<close>, then one tick.\<close>

definition spread_program :: "val \<Rightarrow> run" where
  "spread_program v =
     with_chain (now (resolve 5) v None None init_world)
       (\<lambda>c w. and_then (Chain_spread (resolve 5) c (Some (User ''f'' (returns VUndef))) None False w)
                 (run_tick (resolve 5)))"

text \<open>\<open>start(undefined, s1)\<close> with \<open>s1\<close> calling \<open>this.delay()\<close>, then one tick: the
  chain is suspended and the context of that settlement is at address 0. After
  \<open>resume(1)\<close> on that context, \<open>resume\<close> has been honoured on it.\<close>

definition delayed_world :: world where
  "delayed_world =
     snd (the (with_chain
                 (start (resolve 3) VUndef (Some (User ''s1'' (performs [Delay]))) None init_world)
                 (\<lambda>c w. run_tick (resolve 3) w)))"

definition resumed_world :: world where
  "resumed_world = snd (the (ctx_next (resolve 3) 0 [VNum 1] delayed_world))"


text \<open>A single chain at address 0 with the given \<open>_immediate\<close> flag, value and queue.\<close>

definition queued :: "bool \<Rightarrow> val \<Rightarrow> step list \<Rightarrow> world" where
  "queued imm v steps =
     init_world\<lparr>chains := (chains init_world)(0 := empty_chain\<lparr>c_value := v, c_immediate := imm,
                                                              c_pending := steps\<rparr>),
                nchains := 1\<rparr>"

definition recover_steps :: "step list" where
  "recover_steps =
     [success_only ''s1'' (throws (VStr ''e'')), failure_only ''s2'' (returns (VNum 9)),
      success_only ''s3'' (returns (VNum 10))]"

definition rethrow_steps :: "step list" where
  "rethrow_steps =
     [success_only ''s1'' (throws (VStr ''e'')), failure_only ''s2'' (throws (VStr ''e2'')),
      success_only ''s3'' (returns (VNum 10))]"

definition twice_steps :: "step list" where
  "twice_steps =
     [success_only ''s1'' (performs [Next [VNum 1], Next [VNum 2]]),
      success_only ''s2'' (returns VUndef)]"


definition spread_steps :: "step list" where
  "spread_steps = [spread_step, success_only ''f'' (returns VUndef)]"

section \<open>How a run extends the state\<close>

text \<open>\<open>history_extends w w'\<close>: from \<open>w\<close> to \<open>w'\<close> the trace has only grown, and the error
  history of every chain has grown by exactly the errors with which its failure handlers
  were called in between, in the order of the calls.\<close>

definition history_extends :: "world \<Rightarrow> world \<Rightarrow> bool" where
  "history_extends w w' \<longleftrightarrow>
     (\<exists>evs. trace w' = trace w @ evs \<and>
            (\<forall>d. c_errors (chains w' d) = c_errors (chains w d) @ failure_calls d evs))"

text \<open>In addition, no execution context is lost, \<open>nextOnce\<close> is never reset, and an
  \<open>immediate\<close> flag that is false stays false.\<close>

definition extends :: "world \<Rightarrow> world \<Rightarrow> bool" where
  "extends w w' \<longleftrightarrow>
     history_extends w w' \<and> nctxs w \<le> nctxs w' \<and>
     (\<forall>x<nctxs w. x_nextOnce (ctxs w x) \<longrightarrow> x_nextOnce (ctxs w' x)) \<and>
     (\<forall>d. \<not> c_immediate (chains w d) \<longrightarrow> \<not> c_immediate (chains w' d))"

definition sound :: "resolver \<Rightarrow> bool" where
  "sound R \<longleftrightarrow> (\<forall>c args w ex w'. R c args w = Some (ex, w') \<longrightarrow> extends w w')"

section \<open>Unfolding\<close>

lemmas engine_defs = Chain_chain_def Chain_resolve_def chain_push_def upd_chain_def upd_ctx_def
  upd_all_def resolve_body_def dispatch_def new_ctx_def merge_unPending_def entry_world_def
  entry_args_def run_fallback_def run_errback_def settle_def finish_def finishing_def
  and_then_def completes_def log_raises_def
  ctx_delay_def ctx_next_def ctx_reject_def ctx_chain_def ctx_fail_def run_tick_def Let_def

lemmas program_defs = start_def Chain_new_def Chain_fields_def now_def fail_def setImmediate_def
  init_world_def empty_chain_def returns_def throws_def performs_def success_only_def
  failure_only_def eval_nat_numeral all_def whenDone_def Chain_spread_def
  spread_callback_def spread_step_def set_index_def get_index_def set_length_def queued_def
  with_chain_def run_view_def

section \<open>Runs only extend the state\<close>

lemma failure_calls_append:
  "failure_calls d (xs @ ys) = failure_calls d xs @ failure_calls d ys"
proof (induction xs)
  case Nil
  show ?case by simp
next
  case (Cons ev xs)
  then show ?case by (cases ev) simp
qed

lemma history_extends_trans:
  assumes "history_extends w1 w2" and "history_extends w2 w3"
  shows "history_extends w1 w3"
proof -
  from assms(1) obtain e1 where
    t1: "trace w2 = trace w1 @ e1" and
    h1: "\<forall>d. c_errors (chains w2 d) = c_errors (chains w1 d) @ failure_calls d e1"
    by (auto simp: history_extends_def)
  from assms(2) obtain e2 where
    t2: "trace w3 = trace w2 @ e2" and
    h2: "\<forall>d. c_errors (chains w3 d) = c_errors (chains w2 d) @ failure_calls d e2"
    by (auto simp: history_extends_def)
  have "trace w3 = trace w1 @ (e1 @ e2)"
    using t1 t2 by simp
  moreover have "\<forall>d. c_errors (chains w3 d) = c_errors (chains w1 d) @ failure_calls d (e1 @ e2)"
    using h1 h2 by (simp add: failure_calls_append)
  ultimately show ?thesis
    unfolding history_extends_def by blast
qed

lemma extends_refl: "extends w w"
  by (simp add: extends_def history_extends_def)

lemma extends_trans:
  assumes "extends w1 w2" and "extends w2 w3"
  shows "extends w1 w3"
proof -
  have "history_extends w1 w3"
    using assms by (auto simp: extends_def intro: history_extends_trans)
  moreover have "nctxs w1 \<le> nctxs w3"
    using assms by (simp add: extends_def)
  moreover have "\<forall>x<nctxs w1. x_nextOnce (ctxs w1 x) \<longrightarrow> x_nextOnce (ctxs w3 x)"
    using assms by (auto simp: extends_def)
  moreover have "\<forall>d. \<not> c_immediate (chains w1 d) \<longrightarrow> \<not> c_immediate (chains w3 d)"
    using assms by (auto simp: extends_def)
  ultimately show ?thesis
    by (simp add: extends_def)
qed

lemma extends_chain_upd:
  "c_errors (f (chains w c)) = c_errors (chains w c) \<and>
   (\<not> c_immediate (chains w c) \<longrightarrow> \<not> c_immediate (f (chains w c))) \<Longrightarrow>
   extends w (upd_chain c f w)"
  by (simp add: extends_def history_extends_def upd_chain_def)

lemma extends_ctx_upd:
  "(x_nextOnce (ctxs w x) \<longrightarrow> x_nextOnce (f (ctxs w x))) \<Longrightarrow> extends w (upd_ctx x f w)"
  by (simp add: extends_def history_extends_def upd_ctx_def)

lemma extends_all_upd: "extends w (upd_all a f w)"
  by (simp add: extends_def history_extends_def upd_all_def)

lemma extends_ticks: "extends w (w\<lparr>ticks := t\<rparr>)"
  by (simp add: extends_def history_extends_def)

lemma extends_errback_start:
  "extends w ((upd_chain c (\<lambda>ch. ch\<lparr>c_errors := c_errors ch @ [e]\<rparr>) w)
                \<lparr>trace := trace w @ [Call c nm True [e]]\<rparr>)"
  by (simp add: extends_def history_extends_def upd_chain_def)

lemma extends_fallback_start:
  "extends w (w\<lparr>trace := trace w @ [Call c nm False args]\<rparr>)"
  by (simp add: extends_def history_extends_def)

lemma extends_chain_push: "extends w (chain_push c fb eb nh p w)"
  by (auto simp: chain_push_def intro: extends_chain_upd extends_refl)

lemma extends_ctx_delay: "extends w (ctx_delay x w)"
  unfolding ctx_delay_def
  by (auto intro!: extends_refl extends_trans[OF extends_ctx_upd extends_chain_upd])

lemma extends_entry_world: "extends w (entry_world c args0 w)"
  by (simp add: entry_world_def extends_def history_extends_def upd_chain_def)

lemma extends_merge_unPending: "extends w (merge_unPending c w)"
  by (simp add: merge_unPending_def extends_def history_extends_def upd_chain_def)

lemma extends_new_ctx: "extends w (new_ctx c w)"
  by (simp add: new_ctx_def extends_def history_extends_def)

lemma extends_finish: "extends w (finish c w)"
  by (auto simp: finish_def extends_refl intro: extends_chain_upd)

lemma and_then_extends:
  assumes "and_then r f = Some (ex, w')"
    and "\<And>e u. r = Some (e, u) \<Longrightarrow> extends w u"
    and "\<And>u e. f u = Some (e, w') \<Longrightarrow> extends u w'"
  shows "extends w w'"
proof (cases r)
  case None
  with assms(1) show ?thesis by (simp add: and_then_def)
next
  case (Some p)
  obtain e u where p: "p = (e, u)" by (cases p)
  show ?thesis
  proof (cases e)
    case None
    with Some p assms(1) have "f u = Some (ex, w')" by (simp add: and_then_def)
    then have "extends u w'" by (rule assms(3))
    moreover from Some p have "extends w u" by (auto intro: assms(2))
    ultimately show ?thesis by (blast intro: extends_trans)
  next
    case (Some e')
    with \<open>r = Some p\<close> p assms(1) have "r = Some (ex, w')" by (simp add: and_then_def)
    then show ?thesis by (rule assms(2))
  qed
qed

lemma completes_run: "completes r v = Some (out, w') \<Longrightarrow> \<exists>ex. r = Some (ex, w')"
  by (auto simp: completes_def split: option.splits prod.splits)

lemma ctx_next_extends:
  assumes "sound R" and "ctx_next R x args w = Some (ex, w')"
  shows "extends w w'"
proof (cases "x_nextOnce (ctxs w x)")
  case True
  with assms(2) show ?thesis by (simp add: ctx_next_def extends_refl)
next
  case False
  let ?u = "upd_ctx x (\<lambda>cx. cx\<lparr>x_nextOnce := True, x_skip := True\<rparr>) w"
  let ?v = "upd_chain (x_self (ctxs w x)) (\<lambda>ch. ch\<lparr>c_paused := False\<rparr>) ?u"
  from False assms(2) have "R (x_self (ctxs w x)) args ?v = Some (ex, w')"
    by (simp add: ctx_next_def)
  with assms(1) have "extends ?v w'" by (auto simp: sound_def)
  moreover have "extends w ?u" by (rule extends_ctx_upd) simp
  moreover have "extends ?u ?v" by (rule extends_chain_upd) simp
  ultimately show ?thesis by (blast intro: extends_trans)
qed

lemma ctx_reject_extends:
  assumes "sound R" and "ctx_reject R x args w = Some (ex, w')"
  shows "extends w w'"
proof -
  let ?r = "if \<not> truthy (arg0 args) then VError ''No reason given'' else arg0 args"
  let ?u = "upd_chain (x_self (ctxs w x)) (\<lambda>ch. ch\<lparr>c_error := ?r\<rparr>) w"
  from assms(2) have "ctx_next R x [] ?u = Some (ex, w')"
    by (simp add: ctx_reject_def Let_def)
  then have "extends ?u w'" by (rule ctx_next_extends[OF assms(1)])
  moreover have "extends w ?u" by (rule extends_chain_upd) simp
  ultimately show ?thesis by (blast intro: extends_trans)
qed

lemma run_op_extends:
  assumes "sound R" and "run_op R x p w = Some (ex, w')"
  shows "extends w w'"
proof (cases p)
  case Delay
  with assms(2) show ?thesis by (auto intro: extends_ctx_delay)
next
  case (Next a)
  with assms show ?thesis by (auto intro: ctx_next_extends)
next
  case (ChainOp fb eb nh)
  with assms(2) show ?thesis by (auto simp: ctx_chain_def intro: extends_chain_push)
next
  case (FailOp eb nh)
  with assms(2) show ?thesis by (auto simp: ctx_fail_def intro: extends_chain_push)
next
  case (RejectOp a)
  with assms show ?thesis by (auto intro: ctx_reject_extends)
qed

lemma run_ops_extends:
  assumes "sound R"
  shows "run_ops R x ps w = Some (ex, w') \<Longrightarrow> extends w w'"
proof (induction ps arbitrary: w ex)
  case Nil
  then show ?case by (simp add: extends_refl)
next
  case (Cons p ps)
  from Cons.prems have "and_then (run_op R x p w) (run_ops R x ps) = Some (ex, w')"
    by simp
  then show ?case
  proof (rule and_then_extends)
    fix e u
    assume "run_op R x p w = Some (e, u)"
    then show "extends w u" by (rule run_op_extends[OF assms])
  next
    fix u e
    assume "run_ops R x ps u = Some (e, w')"
    then show "extends u w'" by (rule Cons.IH)
  qed
qed

lemma whenDone_extends:
  assumes "sound R" and "whenDone R a w = Some (ex, w')"
  shows "extends w w'"
  using assms(2)
  by (auto simp: whenDone_def extends_refl split: if_splits option.splits
           intro: ctx_next_extends[OF assms(1)] ctx_reject_extends[OF assms(1)])

lemma invoke_extends:
  assumes "sound R" and "invoke R x h args w = Some (out, w')"
  shows "extends w w'"
proof (cases h)
  case (User nm body)
  with assms(2) obtain ex where "run_ops R x (fst (body args)) w = Some (ex, w')"
    by (auto split: option.splits prod.splits)
  then show ?thesis by (rule run_ops_extends[OF assms(1)])
next
  case (AllInit a)
  with assms(2) show ?thesis
    by (auto intro: extends_trans[OF extends_ctx_delay extends_all_upd])
next
  case (AllOk a k)
  show ?thesis
  proof (cases "a_done (alls w a) k")
    case True
    with AllOk assms(2) show ?thesis by (simp add: extends_refl)
  next
    case False
    with AllOk assms(2) obtain ex where
      "whenDone R a (upd_all a (\<lambda>s. s\<lparr>a_complete := Suc (a_complete s),
                                   a_done := (a_done s)(k := True),
                                   a_results := set_index (a_results s) k
                                     (if length args > 1 then VArr args else arg0 args)\<rparr>) w) = Some (ex, w')"
      by (auto split: option.splits prod.splits)
    then show ?thesis
      by (blast intro: extends_trans extends_all_upd whenDone_extends[OF assms(1)])
  qed
next
  case (AllErr a k)
  show ?thesis
  proof (cases "a_done (alls w a) k")
    case True
    with AllErr assms(2) show ?thesis by (simp add: extends_refl)
  next
    case False
    let ?u = "upd_all a (\<lambda>s. s\<lparr>a_complete := Suc (a_complete s),
                                   a_done := (a_done s)(k := True),
                                   a_firstErr := (if \<not> truthy (a_firstErr s) then arg0 args
                                                  else a_firstErr s),
                                   a_errResults := Some (set_index
                                     (case a_errResults s of None \<Rightarrow> [] | Some er \<Rightarrow> er)
                                     k (arg0 args))\<rparr>) w"
    from False AllErr assms(2) obtain e2 w2 where
      wd: "whenDone R a ?u = Some (e2, w2)" and
      rest: "w' = w2 \<or> (\<exists>ex. ctx_reject R x [arg0 args] w2 = Some (ex, w'))"
      by (auto split: option.splits prod.splits if_splits dest: completes_run)
    have "extends w ?u" by (rule extends_all_upd)
    moreover from wd have "extends ?u w2" by (rule whenDone_extends[OF assms(1)])
    moreover from rest have "extends w2 w'"
      by (auto intro: extends_refl ctx_reject_extends[OF assms(1)])
    ultimately show ?thesis by (blast intro: extends_trans)
  qed
next
  case (NestedOk d)
  with assms(2) obtain ex where
    "R d args (upd_chain d (\<lambda>ch. ch\<lparr>c_paused := False\<rparr>) w) = Some (ex, w')"
    by (auto dest: completes_run)
  with assms(1) have "extends (upd_chain d (\<lambda>ch. ch\<lparr>c_paused := False\<rparr>) w) w'"
    by (auto simp: sound_def)
  moreover have "extends w (upd_chain d (\<lambda>ch. ch\<lparr>c_paused := False\<rparr>) w)"
    by (rule extends_chain_upd) simp
  ultimately show ?thesis by (blast intro: extends_trans)
next
  case (NestedErr d)
  let ?u = "upd_chain d (\<lambda>ch. ch\<lparr>c_paused := False, c_error := arg0 args\<rparr>) w"
  from NestedErr assms(2) obtain ex where
    r: "and_then (R d [] ?u) (ctx_reject R x [arg0 args]) = Some (ex, w')"
    by (auto dest: completes_run)
  have "extends ?u w'"
    using r
  proof (rule and_then_extends)
    fix e u
    assume "R d [] ?u = Some (e, u)"
    with assms(1) show "extends ?u u" by (auto simp: sound_def)
  next
    fix u e
    assume "ctx_reject R x [arg0 args] u = Some (e, w')"
    then show "extends u w'" by (rule ctx_reject_extends[OF assms(1)])
  qed
  moreover have "extends w ?u" by (rule extends_chain_upd) simp
  ultimately show ?thesis by (blast intro: extends_trans)
qed

lemma Chain_resolve_extends:
  assumes "sound R" and "Chain_resolve R c w = Some (ex, w')"
  shows "extends w w'"
proof (cases "c_pending (chains w c) = [] \<or> c_resolving (chains w c)")
  case True
  with assms(2) show ?thesis by (auto simp: Chain_resolve_def extends_refl)
next
  case False
  let ?w1 = "upd_chain c (\<lambda>ch. ch\<lparr>c_resolving := True\<rparr>) w"
  have e1: "extends w ?w1" by (rule extends_chain_upd) simp
  show ?thesis
  proof (cases "c_immediate (chains ?w1 c)")
    case imm: False
    with False assms(2) have "w' = ?w1\<lparr>ticks := ticks ?w1 @ [c]\<rparr>"
      by (auto simp: Chain_resolve_def Let_def)
    then have "extends ?w1 w'" by (simp add: extends_ticks)
    with e1 show ?thesis by (rule extends_trans)
  next
    case imm: True
    let ?w2 = "upd_chain c (\<lambda>ch. ch\<lparr>c_immediate := g_immediate ?w1\<rparr>) ?w1"
    from imm False assms(2) have "R c [] ?w2 = Some (ex, w')"
      by (auto simp: Chain_resolve_def Let_def)
    with assms(1) have "extends ?w2 w'" by (auto simp: sound_def)
    moreover have "extends ?w1 ?w2" using imm by (intro extends_chain_upd) simp
    ultimately show ?thesis using e1 by (blast intro: extends_trans)
  qed
qed

lemma Chain_chain_extends:
  assumes "sound R" and "Chain_chain R c fb eb nh w = Some (ex, w')"
  shows "extends w w'"
proof -
  from assms(2) have "Chain_resolve R c (chain_push c fb eb nh False w) = Some (ex, w')"
    by (simp add: Chain_chain_def)
  then have "extends (chain_push c fb eb nh False w) w'"
    by (rule Chain_resolve_extends[OF assms(1)])
  with extends_chain_push show ?thesis by (rule extends_trans)
qed

lemma finishing_extends:
  assumes "finishing c r = Some (ex, w')" and "\<And>e u. r = Some (e, u) \<Longrightarrow> extends w u"
  shows "extends w w'"
proof -
  from assms(1) have "and_then r (\<lambda>u. Some (None, finish c u)) = Some (ex, w')"
    by (simp add: finishing_def)
  then show ?thesis
  proof (rule and_then_extends)
    fix e u
    assume "r = Some (e, u)"
    then show "extends w u" by (rule assms(2))
  next
    fix u e
    assume "Some (None, finish c u) = Some (e, w')"
    then show "extends u w'" by (auto simp: extends_finish)
  qed
qed

lemma settle_extends:
  assumes "sound R" and "settle R c x v w = Some (ex, w')"
  shows "extends w w'"
proof (cases "x_skip (ctxs w x) \<or> c_paused (chains w c) \<or> c_error (chains w c) \<noteq> VUndef")
  case True
  with assms(2) have "R c [] w = Some (ex, w')" by (simp add: settle_def)
  with assms(1) show ?thesis by (auto simp: sound_def)
next
  case False
  show ?thesis
  proof (cases "isChainable v")
    case True
    let ?u = "upd_chain c (\<lambda>ch. ch\<lparr>c_paused := True\<rparr>) w"
    from True False assms(2) have
      "finishing c (Chain_chain R (chain_addr v) (Some (NestedOk c)) (Some (NestedErr c)) False ?u)
         = Some (ex, w')"
      by (simp add: settle_def)
    then have "extends ?u w'"
      by (rule finishing_extends) (rule Chain_chain_extends[OF assms(1)])
    moreover have "extends w ?u" by (rule extends_chain_upd) simp
    ultimately show ?thesis by (blast intro: extends_trans)
  next
    case plain: False
    let ?u = "if v \<noteq> VUndef then upd_chain c (\<lambda>ch. ch\<lparr>c_value := v\<rparr>) w else w"
    from plain False assms(2) have "finishing c (R c (as_args v) ?u) = Some (ex, w')"
      by (simp add: settle_def)
    then have "extends ?u w'"
    proof (rule finishing_extends)
      fix e u
      assume "R c (as_args v) ?u = Some (e, u)"
      with assms(1) show "extends ?u u" by (auto simp: sound_def)
    qed
    moreover have "extends w ?u" by (auto intro: extends_refl extends_chain_upd)
    ultimately show ?thesis by (blast intro: extends_trans)
  qed
qed

lemma run_errback_extends:
  assumes "sound R" and "run_errback R c x h w = Some (ex, w')"
  shows "extends w w'"
proof -
  let ?e = "c_error (chains w c)"
  let ?u = "(upd_chain c (\<lambda>ch. ch\<lparr>c_errors := c_errors ch @ [?e]\<rparr>) w)
              \<lparr>trace := trace w @ [Call c (handler_name h) True [?e]]\<rparr>"
  from assms(2) obtain out w1 where inv: "invoke R x h [?e] ?u = Some (out, w1)"
    by (auto simp: run_errback_def Let_def split: option.splits)
  have e1: "extends w ?u" by (rule extends_errback_start)
  from inv have e2: "extends ?u w1" by (rule invoke_extends[OF assms(1)])
  show ?thesis
  proof (cases out)
    case (Return v)
    let ?w2 = "upd_chain c (\<lambda>ch. ch\<lparr>c_error := VUndef\<rparr>) w1"
    from Return inv assms(2)
    have "settle R c x (if v = VUndef then VArr [VUndef] else v) ?w2 = Some (ex, w')"
      by (simp add: run_errback_def Let_def)
    then have "extends ?w2 w'" by (rule settle_extends[OF assms(1)])
    moreover have "extends w1 ?w2" by (rule extends_chain_upd) simp
    ultimately show ?thesis using e1 e2 by (blast intro: extends_trans)
  next
    case (Throw e')
    let ?w2 = "upd_chain c (\<lambda>ch. ch\<lparr>c_error := e'\<rparr>) w1"
    from Throw inv assms(2) have "settle R c x (VArr [e']) ?w2 = Some (ex, w')"
      by (simp add: run_errback_def Let_def)
    then have "extends ?w2 w'" by (rule settle_extends[OF assms(1)])
    moreover have "extends w1 ?w2" by (rule extends_chain_upd) simp
    ultimately show ?thesis using e1 e2 by (blast intro: extends_trans)
  qed
qed

lemma run_fallback_extends:
  assumes "sound R" and "run_fallback R c x h args w = Some (ex, w')"
  shows "extends w w'"
proof -
  let ?u = "w\<lparr>trace := trace w @ [Call c (handler_name h) False args]\<rparr>"
  from assms(2) obtain out w1 where inv: "invoke R x h args ?u = Some (out, w1)"
    by (auto simp: run_fallback_def split: option.splits)
  have e1: "extends w ?u" by (rule extends_fallback_start)
  from inv have e2: "extends ?u w1" by (rule invoke_extends[OF assms(1)])
  show ?thesis
  proof (cases out)
    case (Return v)
    from Return inv assms(2)
    have "settle R c x (if v = VUndef then VArr [] else v) w1 = Some (ex, w')"
      by (simp add: run_fallback_def)
    then have "extends w1 w'" by (rule settle_extends[OF assms(1)])
    with e1 e2 show ?thesis by (blast intro: extends_trans)
  next
    case (Throw e)
    let ?w2 = "upd_chain c (\<lambda>ch. ch\<lparr>c_error := e\<rparr>) w1"
    have e3: "extends w1 ?w2" by (rule extends_chain_upd) simp
    from Throw inv assms(2) have "w' = ?w2 \<or> settle R c x (VArr []) ?w2 = Some (ex, w')"
      by (auto simp: run_fallback_def split: if_splits)
    then have "extends ?w2 w'"
      by (auto intro: extends_refl settle_extends[OF assms(1)])
    with e1 e2 e3 show ?thesis by (blast intro: extends_trans)
  qed
qed

lemma dispatch_extends:
  assumes "sound R" and "dispatch R c args fns w = Some (ex, w')"
  shows "extends w w'"
proof -
  from assms(2) have
    "R c args w = Some (ex, w') \<or> R c args (new_ctx c w) = Some (ex, w') \<or>
     (\<exists>h. run_errback R c (nctxs w) h (new_ctx c w) = Some (ex, w')) \<or>
     (\<exists>h. run_fallback R c (nctxs w) h args (new_ctx c w) = Some (ex, w'))"
    unfolding dispatch_def by (auto split: if_splits option.splits)
  then have "extends w w' \<or> extends (new_ctx c w) w'"
    using assms(1)
    by (auto simp: sound_def intro: run_errback_extends run_fallback_extends)
  with extends_new_ctx[of w c] show ?thesis by (blast intro: extends_trans)
qed

lemma resolve_body_extends:
  assumes "sound R" and "resolve_body R c args0 w0 = Some (ex, w')"
  shows "extends w0 w'"
proof -
  let ?w1 = "entry_world c args0 w0"
  let ?w2 = "merge_unPending c ?w1"
  let ?w3 = "upd_chain c (\<lambda>ch. ch\<lparr>c_pending := tl (c_pending ch)\<rparr>) ?w2"
  have e1: "extends w0 ?w1" by (rule extends_entry_world)
  show ?thesis
  proof (cases "c_pending (chains ?w1 c) = [] \<or> c_paused (chains ?w1 c)")
    case True
    with assms(2) have "w' = upd_chain c (\<lambda>ch. ch\<lparr>c_resolving := False\<rparr>) ?w1 \<or> w' = ?w1"
      by (auto simp: resolve_body_def split: if_splits)
    then have "extends ?w1 w'"
      by (auto simp: extends_def history_extends_def upd_chain_def split: if_splits)
    with e1 show ?thesis by (rule extends_trans)
  next
    case False
    with assms(2) have
      "dispatch R c (entry_args c args0 w0) (hd (c_pending (chains ?w2 c))) ?w3 = Some (ex, w')"
      by (simp add: resolve_body_def)
    then have "extends ?w3 w'" by (rule dispatch_extends[OF assms(1)])
    moreover have "extends ?w1 ?w2" by (rule extends_merge_unPending)
    moreover have "extends ?w2 ?w3" by (rule extends_chain_upd) simp
    ultimately show ?thesis using e1 by (blast intro: extends_trans)
  qed
qed

lemma resolve_sound: "sound (resolve n)"
proof (induction n)
  case 0
  show ?case by (simp add: sound_def)
next
  case (Suc n)
  show ?case
    unfolding sound_def
  proof (intro allI impI)
    fix c args w ex w'
    assume "resolve (Suc n) c args w = Some (ex, w')"
    then have "resolve_body (resolve n) c args w = Some (ex, w')" by simp
    then show "extends w w'" by (rule resolve_body_extends[OF Suc.IH])
  qed
qed

lemma resolve_extends: "resolve n c args w = Some (ex, w') \<Longrightarrow> extends w w'"
  using resolve_sound[of n] by (auto simp: sound_def)

lemma run_tick_extends:
  assumes "run_tick (resolve n) w = Some (ex, w')"
  shows "extends w w'"
proof (cases "ticks w")
  case Nil
  with assms show ?thesis by (simp add: run_tick_def extends_refl)
next
  case (Cons c cs)
  with assms have "resolve n c [] (w\<lparr>ticks := cs\<rparr>) = Some (ex, w')"
    by (simp add: run_tick_def)
  then have "extends (w\<lparr>ticks := cs\<rparr>) w'" by (rule resolve_extends)
  with extends_ticks show ?thesis by (rule extends_trans)
qed

lemma resumed_stays_resumed:
  assumes "x < nctxs w" and "ctx_next (resolve n) x a w = Some (ex, u)"
  shows "x_nextOnce (ctxs u x)"
proof (cases "x_nextOnce (ctxs w x)")
  case True
  with assms(2) show ?thesis by (simp add: ctx_next_def)
next
  case False
  let ?v = "upd_chain (x_self (ctxs w x)) (\<lambda>ch. ch\<lparr>c_paused := False\<rparr>)
              (upd_ctx x (\<lambda>cx. cx\<lparr>x_nextOnce := True, x_skip := True\<rparr>) w)"
  from False assms(2) have "resolve n (x_self (ctxs w x)) a ?v = Some (ex, u)"
    by (simp add: ctx_next_def)
  then have "extends ?v u" by (rule resolve_extends)
  moreover have "x < nctxs ?v" and "x_nextOnce (ctxs ?v x)"
    using assms(1) by (simp_all add: upd_chain_def upd_ctx_def)
  ultimately show ?thesis by (auto simp: extends_def)
qed

lemma second_next_is_void:
  assumes "x < nctxs w"
  shows "run_ops (resolve n) x [Next a, Next b] w = run_ops (resolve n) x [Next a] w"
proof (cases "ctx_next (resolve n) x a w")
  case None
  then show ?thesis by (simp add: and_then_def)
next
  case (Some p)
  obtain ex u where p: "p = (ex, u)" by (cases p)
  with Some assms have "x_nextOnce (ctxs u x)" by (auto intro: resumed_stays_resumed)
  with Some p show ?thesis by (cases ex) (simp_all add: and_then_def ctx_next_def)
qed

section \<open>Error propagation\<close>

text \<open>
  Claim C1, evaluated on the code. In \<open>start(7, s1).fail(s2).chain(s3)\<close> with \<open>s1\<close>
  throwing \<open>null\<close>, the catch clause of the success branch stores \<open>null\<close> in \<open>_error\<close>
  and then logs it with \<open>console.log('err', e && e.stack || e.message || e)\<close>, which
  reads \<open>e.message\<close> of \<open>null\<close>: a TypeError propagates out of the drain. \<open>s1\<close> is the
  only handler called; \<open>s2\<close> is never called with the error; the chain keeps
  \<open>_resolving = true\<close> with \<open>s2\<close> and \<open>s3\<close> queued and nothing scheduled, so no later
  \<open>chain\<close> call drains it. The same happens when \<open>s1\<close> throws \<open>undefined\<close>.
\<close>

theorem thrown_null_stops_the_drain:
  "run_view trace (throw_program VNull) =
     Some (Some (VError ''TypeError''), [Call 0 ''s1'' False [VNum 7]]) \<and>
   run_view (queue_state 0) (throw_program VNull) =
     Some (Some (VError ''TypeError''), (True, 2, VNull, [])) \<and>
   run_view trace (throw_program VUndef) =
     Some (Some (VError ''TypeError''), [Call 0 ''s1'' False [VNum 7]]) \<and>
   run_view (queue_state 0) (throw_program VUndef) =
     Some (Some (VError ''TypeError''), (True, 2, VUndef, []))"
  by (simp add: throw_program_def queue_state_def engine_defs program_defs)

text \<open>
  For every thrown value other than \<open>null\<close> and \<open>undefined\<close> the failure handler is
  reached. A chain is drained with the steps \<open>s1\<close> (success only), \<open>s2\<close> (failure only),
  \<open>s3\<close> (success only) queued, and \<open>s1\<close> throws \<open>e\<close>. Then \<open>s1\<close> is called once, \<open>s2\<close>
  is called once, with \<open>e\<close>, after \<open>e\<close> has been appended to the error history, and no
  success handler is called while the error is pending. If \<open>s2\<close> returns a value \<open>v\<close>
  that is not a Chain, the pending error is cleared and \<open>s3\<close> is called after \<open>s2\<close> with
  \<open>v\<close> (with the elements of \<open>v\<close> as separate arguments when \<open>v\<close> is an array). If \<open>s2\<close>
  throws \<open>e2\<close> (not \<open>undefined\<close>, which the engine reads as no error), \<open>s3\<close> is not
  called and \<open>e2\<close> is the pending error; a further failure-only step \<open>s4\<close> is then called
  with \<open>e2\<close>. Four units of fuel (five with \<open>s4\<close>) are enough for the drain to finish,
  and no exception leaves it.
\<close>

lemma error_skips_to_failure_handler:
  assumes "ready c w" and "e \<noteq> VNull" and "e \<noteq> VUndef"
  shows
    "(\<not> isChainable v \<and> \<not> isChainable r \<and>
      c_pending (chains w c) =
        [success_only n1 (throws e), failure_only n2 (returns v), success_only n3 (returns r)] \<longrightarrow>
      (\<exists>w'. resolve (Suc (Suc (Suc (Suc n)))) c [] w = Some (None, w') \<and>
            trace w' = trace w @ [Call c n1 False (as_args (c_value (chains w c))),
                                  Call c n2 True [e],
                                  Call c n3 False (if v = VUndef then [VUndef] else as_args v)] \<and>
            c_error (chains w' c) = VUndef \<and>
            c_errors (chains w' c) = c_errors (chains w c) @ [e])) \<and>
     (e2 \<noteq> VUndef \<and>
      c_pending (chains w c) =
        [success_only n1 (throws e), failure_only n2 (throws e2), success_only n3 b3] \<longrightarrow>
      (\<exists>w'. resolve (Suc (Suc (Suc (Suc n)))) c [] w = Some (None, w') \<and>
            trace w' = trace w @ [Call c n1 False (as_args (c_value (chains w c))),
                                  Call c n2 True [e]] \<and>
            c_error (chains w' c) = e2 \<and>
            c_errors (chains w' c) = c_errors (chains w c) @ [e])) \<and>
     (e2 \<noteq> VUndef \<and> \<not> isChainable r \<and>
      c_pending (chains w c) =
        [success_only n1 (throws e), failure_only n2 (throws e2), success_only n3 b3,
         failure_only n4 (returns r)] \<longrightarrow>
      (\<exists>w'. resolve (Suc (Suc (Suc (Suc (Suc n))))) c [] w = Some (None, w') \<and>
            trace w' = trace w @ [Call c n1 False (as_args (c_value (chains w c))),
                                  Call c n2 True [e],
                                  Call c n4 True [e2]] \<and>
            c_error (chains w' c) = VUndef \<and>
            c_errors (chains w' c) = c_errors (chains w c) @ [e, e2]))"
proof (intro conjI impI)
  assume "\<not> isChainable v \<and> \<not> isChainable r \<and>
      c_pending (chains w c) =
        [success_only n1 (throws e), failure_only n2 (returns v), success_only n3 (returns r)]"
  with assms show "\<exists>w'. resolve (Suc (Suc (Suc (Suc n)))) c [] w = Some (None, w') \<and>
            trace w' = trace w @ [Call c n1 False (as_args (c_value (chains w c))),
                                  Call c n2 True [e],
                                  Call c n3 False (if v = VUndef then [VUndef] else as_args v)] \<and>
            c_error (chains w' c) = VUndef \<and>
            c_errors (chains w' c) = c_errors (chains w c) @ [e]"
    by (simp add: ready_def engine_defs success_only_def failure_only_def throws_def returns_def)
next
  assume "e2 \<noteq> VUndef \<and>
      c_pending (chains w c) =
        [success_only n1 (throws e), failure_only n2 (throws e2), success_only n3 b3]"
  with assms show "\<exists>w'. resolve (Suc (Suc (Suc (Suc n)))) c [] w = Some (None, w') \<and>
            trace w' = trace w @ [Call c n1 False (as_args (c_value (chains w c))),
                                  Call c n2 True [e]] \<and>
            c_error (chains w' c) = e2 \<and>
            c_errors (chains w' c) = c_errors (chains w c) @ [e]"
    by (simp add: ready_def engine_defs success_only_def failure_only_def throws_def returns_def)
next
  assume "e2 \<noteq> VUndef \<and> \<not> isChainable r \<and>
      c_pending (chains w c) =
        [success_only n1 (throws e), failure_only n2 (throws e2), success_only n3 b3,
         failure_only n4 (returns r)]"
  with assms show "\<exists>w'. resolve (Suc (Suc (Suc (Suc (Suc n))))) c [] w = Some (None, w') \<and>
            trace w' = trace w @ [Call c n1 False (as_args (c_value (chains w c))),
                                  Call c n2 True [e],
                                  Call c n4 True [e2]] \<and>
            c_error (chains w' c) = VUndef \<and>
            c_errors (chains w' c) = c_errors (chains w c) @ [e, e2]"
    by (simp add: ready_def engine_defs success_only_def failure_only_def throws_def returns_def)
qed

text \<open>The same on \<open>start(7, s1).fail(s2).chain(s3)\<close> with \<open>s1\<close> throwing \<open>"e"\<close>, and with
  \<open>s1\<close> throwing the falsy value 0.\<close>

lemma thrown_values_reach_the_failure_handler:
  "run_view trace (throw_program (VStr ''e'')) =
     Some (None, [Call 0 ''s1'' False [VNum 7], Call 0 ''s2'' True [VStr ''e''],
                  Call 0 ''s3'' False [VNum 9]]) \<and>
   run_view trace (throw_program (VNum 0)) =
     Some (None, [Call 0 ''s1'' False [VNum 7], Call 0 ''s2'' True [VNum 0],
                  Call 0 ''s3'' False [VNum 9]])"
  by (simp add: throw_program_def engine_defs program_defs)

section \<open>The trigger and the scheduling mode\<close>

text \<open>
  Claim C3, as amended. \<open>resolve\<close> is triggered on a chain with a non-empty queue while no
  resolution is in progress. If the chain's \<open>immediate\<close> flag is false, the trigger marks
  the chain as resolving and hands the drain to \<open>nextTick\<close>; nothing else changes, and
  the tick then runs the inner \<open>resolve\<close> without arguments on that state. The flag is
  not reset to the process-wide default: no run of the inner \<open>resolve\<close> changes a flag
  that is false. If the flag is true, it is reset to the process-wide default and the
  inner \<open>resolve\<close> runs in the current turn.
\<close>

theorem trigger_defers_or_drains:
  assumes "c_pending (chains w c) \<noteq> []" and "\<not> c_resolving (chains w c)"
  shows
    "(\<not> c_immediate (chains w c) \<longrightarrow>
        Chain_resolve (resolve n) c w =
          Some (None,
                (upd_chain c (\<lambda>ch. ch\<lparr>c_resolving := True\<rparr>) w)\<lparr>ticks := ticks w @ [c]\<rparr>) \<and>
        run_tick (resolve m) ((upd_chain c (\<lambda>ch. ch\<lparr>c_resolving := True\<rparr>) w)\<lparr>ticks := [c]\<rparr>) =
          resolve m c [] ((upd_chain c (\<lambda>ch. ch\<lparr>c_resolving := True\<rparr>) w)\<lparr>ticks := []\<rparr>)) \<and>
     (\<not> c_immediate (chains u c) \<and> resolve m d args u = Some (ex, u') \<longrightarrow>
        \<not> c_immediate (chains u' c)) \<and>
     (c_immediate (chains w c) \<longrightarrow>
        Chain_resolve (resolve n) c w =
          resolve n c []
            (upd_chain c (\<lambda>ch. ch\<lparr>c_resolving := True, c_immediate := g_immediate w\<rparr>) w))"
proof (intro conjI impI)
  assume "\<not> c_immediate (chains w c)"
  with assms show "Chain_resolve (resolve n) c w =
      Some (None,
            (upd_chain c (\<lambda>ch. ch\<lparr>c_resolving := True\<rparr>) w)\<lparr>ticks := ticks w @ [c]\<rparr>)"
    by (simp add: Chain_resolve_def upd_chain_def Let_def)
next
  show "run_tick (resolve m) ((upd_chain c (\<lambda>ch. ch\<lparr>c_resolving := True\<rparr>) w)\<lparr>ticks := [c]\<rparr>) =
      resolve m c [] ((upd_chain c (\<lambda>ch. ch\<lparr>c_resolving := True\<rparr>) w)\<lparr>ticks := []\<rparr>)"
    by (simp add: run_tick_def)
next
  assume a: "\<not> c_immediate (chains u c) \<and> resolve m d args u = Some (ex, u')"
  then have "extends u u'" by (auto intro: resolve_extends)
  with a show "\<not> c_immediate (chains u' c)" by (auto simp: extends_def)
next
  assume "c_immediate (chains w c)"
  with assms show "Chain_resolve (resolve n) c w =
      resolve n c []
        (upd_chain c (\<lambda>ch. ch\<lparr>c_resolving := True, c_immediate := g_immediate w\<rparr>) w)"
    by (simp add: Chain_resolve_def upd_chain_def Let_def)
qed

theorem trigger_defers_or_drains_witness:
  "c_pending (chains (queued False (VNum 7) recover_steps) 0) \<noteq> [] \<and>
   \<not> c_resolving (chains (queued False (VNum 7) recover_steps) 0) \<and>
   \<not> c_immediate (chains (queued False (VNum 7) recover_steps) 0) \<and>
   run_view ticks (Chain_resolve (resolve 4) 0 (queued False (VNum 7) recover_steps))
     = Some (None, [0]) \<and>
   run_view trace (Chain_resolve (resolve 4) 0 (queued False (VNum 7) recover_steps))
     = Some (None, []) \<and>
   run_view (flags_of 0) (Chain_resolve (resolve 4) 0 (queued False (VNum 7) recover_steps))
     = Some (None, (False, False)) \<and>
   (\<exists>w'. resolve 4 0 [] (queued False (VNum 7) recover_steps) = Some (None, w') \<and>
         \<not> c_immediate (chains w' 0)) \<and>
   c_pending (chains (queued True (VNum 7) recover_steps) 0) \<noteq> [] \<and>
   \<not> c_resolving (chains (queued True (VNum 7) recover_steps) 0) \<and>
   c_immediate (chains (queued True (VNum 7) recover_steps) 0) \<and>
   run_view trace (Chain_resolve (resolve 4) 0 (queued True (VNum 7) recover_steps)) =
     Some (None, [Call 0 ''s1'' False [VNum 7], Call 0 ''s2'' True [VStr ''e''],
                  Call 0 ''s3'' False [VNum 9]])"
proof -
  let ?D = "queued False (VNum 7) recover_steps"
  let ?I = "queued True (VNum 7) recover_steps"
  have d: "c_pending (chains ?D 0) \<noteq> []" "\<not> c_resolving (chains ?D 0)"
      "\<not> c_immediate (chains ?D 0)"
    and i: "c_pending (chains ?I 0) \<noteq> []" "\<not> c_resolving (chains ?I 0)"
      "c_immediate (chains ?I 0)"
    by (simp_all add: queued_def recover_steps_def init_world_def empty_chain_def)
  note t = trigger_defers_or_drains
  from t[OF d(1,2), where n = 4 and m = 4] d(3)
  have "Chain_resolve (resolve 4) 0 ?D =
          Some (None,
                (upd_chain 0 (\<lambda>ch. ch\<lparr>c_resolving := True\<rparr>) ?D)\<lparr>ticks := ticks ?D @ [0]\<rparr>)"
    by simp
  then have "run_view ticks (Chain_resolve (resolve 4) 0 ?D) = Some (None, [0])"
    and "run_view trace (Chain_resolve (resolve 4) 0 ?D) = Some (None, [])"
    and "run_view (flags_of 0) (Chain_resolve (resolve 4) 0 ?D) = Some (None, (False, False))"
    by (simp_all add: run_view_def flags_of_def upd_chain_def queued_def init_world_def
        empty_chain_def)
  moreover
  have "\<exists>w'. resolve 4 0 [] ?D = Some (None, w')"
    by (simp add: recover_steps_def engine_defs program_defs)
  then obtain w1 where w1: "resolve 4 0 [] ?D = Some (None, w1)" by blast
  with t[OF d(1,2), where m = 4 and u = ?D and d = 0 and args = "[]" and ex = None and u' = w1]
    d(3)
  have "\<exists>w'. resolve 4 0 [] ?D = Some (None, w') \<and> \<not> c_immediate (chains w' 0)"
    by simp
  moreover
  from t[OF i(1,2), where n = 4 and m = 4] i(3)
  have "Chain_resolve (resolve 4) 0 ?I =
          resolve 4 0 []
            (upd_chain 0 (\<lambda>ch. ch\<lparr>c_resolving := True, c_immediate := g_immediate ?I\<rparr>) ?I)"
    by simp
  then have "run_view trace (Chain_resolve (resolve 4) 0 ?I) =
     Some (None, [Call 0 ''s1'' False [VNum 7], Call 0 ''s2'' True [VStr ''e''],
                  Call 0 ''s3'' False [VNum 9]])"
    by (simp add: recover_steps_def engine_defs program_defs)
  ultimately show ?thesis using d i by simp
qed

text \<open>
  Claim C3 as it is stated fails: after \<open>setImmediate(true)\<close>, a chain started with
  \<open>TICK\<close> and a handler defers its first drain, and once the tick has run the handler
  the chain's \<open>immediate\<close> flag is still false while the process-wide default is true.
\<close>

theorem deferred_flag_not_reset:
  "run_view (flags_of 0) tick_chain_program = Some (None, (False, True)) \<and>
   run_view trace tick_chain_program = Some (None, [Call 0 ''h'' False [VUndef]])"
  by (simp add: tick_chain_program_def flags_of_def engine_defs program_defs)

text \<open>
  Claim C8. On a chain whose \<open>immediate\<close> flag is false, \<open>chain\<close> returns without having
  called any handler: the trace after the call is the trace before it, for every chain,
  every state and every pair of handlers. On a chain whose flag is true, that is idle and
  has no error, the handler attached is called within the attaching call, with the
  chain's value as its arguments.
\<close>

theorem chain_deferred_never_synchronous:
  "(\<not> c_immediate (chains w c) \<longrightarrow>
      (\<exists>w'. Chain_chain (resolve n) c fb eb nh w = Some (None, w') \<and> trace w' = trace w)) \<and>
   (c_immediate (chains w c) \<and> c_pending (chains w c) = [] \<and> \<not> c_resolving (chains w c) \<and>
    ready c w \<and> \<not> isChainable r \<longrightarrow>
      (\<exists>w'. Chain_chain (resolve (Suc (Suc n))) c (Some (User nm (returns r))) None False w
              = Some (None, w') \<and>
            trace w' = trace w @ [Call c nm False (as_args (c_value (chains w c)))]))"
  by (simp add: ready_def engine_defs returns_def)

theorem chain_deferred_never_synchronous_witness:
  "\<not> c_immediate (chains (queued False (VNum 7) []) 0) \<and>
   (\<exists>w'. Chain_chain (resolve (Suc (Suc 0))) 0 (Some (User ''h'' (returns (VNum 1)))) None False
            (queued False (VNum 7) []) = Some (None, w') \<and> trace w' = []) \<and>
   c_immediate (chains (queued True (VNum 7) []) 0) \<and>
   c_pending (chains (queued True (VNum 7) []) 0) = [] \<and>
   \<not> c_resolving (chains (queued True (VNum 7) []) 0) \<and>
   ready 0 (queued True (VNum 7) []) \<and> \<not> isChainable (VNum 1) \<and>
   (\<exists>w'. Chain_chain (resolve (Suc (Suc 0))) 0 (Some (User ''h'' (returns (VNum 1)))) None False
            (queued True (VNum 7) []) = Some (None, w') \<and>
         trace w' = [Call 0 ''h'' False [VNum 7]])"
proof -
  let ?D = "queued False (VNum 7) []"
  let ?I = "queued True (VNum 7) []"
  have d: "\<not> c_immediate (chains ?D 0)" "trace ?D = []"
    and i: "c_immediate (chains ?I 0)" "c_pending (chains ?I 0) = []"
      "\<not> c_resolving (chains ?I 0)" "ready 0 ?I" "trace ?I = []" "c_value (chains ?I 0) = VNum 7"
    by (simp_all add: ready_def queued_def init_world_def empty_chain_def)
  from chain_deferred_never_synchronous[where w = ?D and c = 0 and n = "Suc (Suc 0)"
      and fb = "Some (User ''h'' (returns (VNum 1)))" and eb = None and nh = False,
      THEN conjunct1] d
  have "\<exists>w'. Chain_chain (resolve (Suc (Suc 0))) 0 (Some (User ''h'' (returns (VNum 1)))) None False
            ?D = Some (None, w') \<and> trace w' = []"
    by simp
  moreover
  from chain_deferred_never_synchronous[where w = ?I and c = 0 and n = 0 and r = "VNum 1"
      and nm = "''h''", THEN conjunct2] i
  have "\<exists>w'. Chain_chain (resolve (Suc (Suc 0))) 0 (Some (User ''h'' (returns (VNum 1)))) None False
            ?I = Some (None, w') \<and> trace w' = [Call 0 ''h'' False [VNum 7]]"
    by simp
  ultimately show ?thesis using d i by simp
qed

section \<open>The execution context\<close>

text \<open>
  Claim C4. Once \<open>resume\<close>/\<open>next\<close> has been honoured on an execution context, a further
  call is a no-op: it returns the state unchanged and does not call the inner \<open>resolve\<close>
  (it needs no fuel). A handler that calls \<open>next\<close> twice, with any two argument lists,
  has the effect of one that makes the first call only. And when the first of two queued
  steps calls \<open>next(a)\<close> and then \<open>next(b)\<close>, the second step is called once, with the
  arguments \<open>a\<close> of the first call (with the chain's value when \<open>a\<close> is empty, as
  after a single call).
\<close>

theorem next_honoured_once:
  "(x_nextOnce (ctxs w x) \<longrightarrow> ctx_next (resolve n) x b w = Some (None, w)) \<and>
   (x < nctxs w \<longrightarrow>
      run_ops (resolve n) x [Next a, Next b] w = run_ops (resolve n) x [Next a] w) \<and>
   (ready c w \<and> \<not> isChainable r \<and>
    c_pending (chains w c) =
      [success_only n1 (performs [Next a, Next b]), success_only n2 (returns r)] \<longrightarrow>
      (\<exists>w'. resolve (Suc (Suc (Suc n))) c [] w = Some (None, w') \<and>
            trace w' = trace w @ [Call c n1 False (as_args (c_value (chains w c))),
                                  Call c n2 False (if a = [] then as_args (c_value (chains w c))
                                                   else a)]))"
proof (intro conjI impI)
  assume "x_nextOnce (ctxs w x)"
  then show "ctx_next (resolve n) x b w = Some (None, w)"
    by (simp add: ctx_next_def)
next
  assume "x < nctxs w"
  then show "run_ops (resolve n) x [Next a, Next b] w = run_ops (resolve n) x [Next a] w"
    by (rule second_next_is_void)
next
  assume "ready c w \<and> \<not> isChainable r \<and>
    c_pending (chains w c) =
      [success_only n1 (performs [Next a, Next b]), success_only n2 (returns r)]"
  then show "\<exists>w'. resolve (Suc (Suc (Suc n))) c [] w = Some (None, w') \<and>
            trace w' = trace w @ [Call c n1 False (as_args (c_value (chains w c))),
                                  Call c n2 False (if a = [] then as_args (c_value (chains w c))
                                                   else a)]"
    by (simp add: ready_def engine_defs success_only_def performs_def returns_def)
qed

lemma delayed_world_eval:
  "nctxs delayed_world = 1 \<and> \<not> x_nextOnce (ctxs delayed_world 0) \<and>
   x_self (ctxs delayed_world 0) = 0 \<and> c_paused (chains delayed_world 0) \<and>
   trace delayed_world = [Call 0 ''s1'' False [VUndef]] \<and>
   c_errors (chains delayed_world 0) = []"
  by (simp add: delayed_world_def engine_defs program_defs)

lemma resumed_world_eval:
  "ctx_next (resolve 3) 0 [VNum 1] delayed_world = Some (None, resumed_world) \<and>
   nctxs resumed_world = 1 \<and> x_nextOnce (ctxs resumed_world 0) \<and>
   x_self (ctxs resumed_world 0) = 0 \<and>
   trace resumed_world = [Call 0 ''s1'' False [VUndef]] \<and>
   c_error (chains resumed_world 0) = VUndef \<and> c_errors (chains resumed_world 0) = []"
  by (simp add: resumed_world_def delayed_world_def engine_defs program_defs)

theorem next_honoured_once_witness:
  "x_nextOnce (ctxs resumed_world 0) \<and>
   ctx_next (resolve 3) 0 [VNum 2] resumed_world = Some (None, resumed_world) \<and>
   0 < nctxs delayed_world \<and>
   run_ops (resolve 3) 0 [Next [VNum 1], Next [VNum 2]] delayed_world
     = Some (None, resumed_world) \<and>
   ready 0 (queued False (VNum 7) twice_steps) \<and> \<not> isChainable VUndef \<and>
   (\<exists>w'. resolve (Suc (Suc (Suc 0))) 0 [] (queued False (VNum 7) twice_steps)
           = Some (None, w') \<and>
         trace w' = [Call 0 ''s1'' False [VNum 7], Call 0 ''s2'' False [VNum 1]])"
proof -
  let ?T = "queued False (VNum 7) twice_steps"
  have h1: "x_nextOnce (ctxs resumed_world 0)"
    using resumed_world_eval by simp
  have h2: "0 < nctxs delayed_world"
    using delayed_world_eval by simp
  have h3: "ready 0 ?T" "trace ?T = []" "c_value (chains ?T 0) = VNum 7"
    by (simp_all add: ready_def queued_def init_world_def empty_chain_def)
  have p: "c_pending (chains ?T 0) =
      [success_only ''s1'' (performs [Next [VNum 1], Next [VNum 2]]),
       success_only ''s2'' (returns VUndef)]"
    by (simp add: queued_def twice_steps_def)
  from next_honoured_once[where w = resumed_world and x = 0 and n = 3 and b = "[VNum 2]",
      THEN conjunct1] h1
  have a: "ctx_next (resolve 3) 0 [VNum 2] resumed_world = Some (None, resumed_world)"
    by simp
  from next_honoured_once[where w = delayed_world and x = 0 and n = 3 and a = "[VNum 1]"
      and b = "[VNum 2]", THEN conjunct2, THEN conjunct1] h2
  have "run_ops (resolve 3) 0 [Next [VNum 1], Next [VNum 2]] delayed_world =
        run_ops (resolve 3) 0 [Next [VNum 1]] delayed_world"
    by simp
  then have b: "run_ops (resolve 3) 0 [Next [VNum 1], Next [VNum 2]] delayed_world =
        Some (None, resumed_world)"
    using resumed_world_eval by (simp add: and_then_def)
  from next_honoured_once[where w = ?T and c = 0 and n = 0 and a = "[VNum 1]"
      and b = "[VNum 2]" and r = VUndef and ?n1.0 = "''s1''" and ?n2.0 = "''s2''",
      THEN conjunct2, THEN conjunct2] h3 p
  have c: "\<exists>w'. resolve (Suc (Suc (Suc 0))) 0 [] ?T = Some (None, w') \<and>
         trace w' = [Call 0 ''s1'' False [VNum 7], Call 0 ''s2'' False [VNum 1]]"
    by simp
  from h1 a h2 b h3(1) c show ?thesis by simp
qed








section \<open>The error history\<close>

text \<open>
  Claim C5, as amended. An error is appended to the chain's error history \<open>_errors\<close> at the
  moment a failure handler is called with it, and at no other moment: over any run of the
  inner \<open>resolve\<close>, of \<open>chain\<close>, of a tick, and of \<open>resume\<close> or \<open>reject\<close> on an execution
  context, the history of every chain grows by exactly the errors with which its failure
  handlers were called during the run, in the order of the calls. Nothing is ever removed
  from a history, also not when a failure handler recovers. (An error that is pending
  while no failure handler is reached is not recorded.)
\<close>

theorem error_history_records_handled_errors:
  "(resolve n c args w = Some (ex, w') \<longrightarrow> history_extends w w') \<and>
   (Chain_chain (resolve n) c fb eb nh w = Some (ex, w') \<longrightarrow> history_extends w w') \<and>
   (run_tick (resolve n) w = Some (ex, w') \<longrightarrow> history_extends w w') \<and>
   (ctx_next (resolve n) x args w = Some (ex, w') \<longrightarrow> history_extends w w') \<and>
   (ctx_reject (resolve n) x args w = Some (ex, w') \<longrightarrow> history_extends w w')"
proof (intro conjI impI)
  assume "resolve n c args w = Some (ex, w')"
  then have "extends w w'" by (rule resolve_extends)
  then show "history_extends w w'" by (simp add: extends_def)
next
  assume "Chain_chain (resolve n) c fb eb nh w = Some (ex, w')"
  then have "extends w w'" by (rule Chain_chain_extends[OF resolve_sound])
  then show "history_extends w w'" by (simp add: extends_def)
next
  assume "run_tick (resolve n) w = Some (ex, w')"
  then have "extends w w'" by (rule run_tick_extends)
  then show "history_extends w w'" by (simp add: extends_def)
next
  assume "ctx_next (resolve n) x args w = Some (ex, w')"
  then have "extends w w'" by (rule ctx_next_extends[OF resolve_sound])
  then show "history_extends w w'" by (simp add: extends_def)
next
  assume "ctx_reject (resolve n) x args w = Some (ex, w')"
  then have "extends w w'" by (rule ctx_reject_extends[OF resolve_sound])
  then show "history_extends w w'" by (simp add: extends_def)
qed

theorem error_history_records_handled_errors_witness:
  "(\<exists>w'. resolve 4 0 [] (queued False (VNum 7) recover_steps) = Some (None, w') \<and>
         history_extends (queued False (VNum 7) recover_steps) w' \<and>
         c_errors (chains w' 0) = [VStr ''e''] \<and> c_error (chains w' 0) = VUndef) \<and>
   (\<exists>w'. Chain_chain (resolve 5) 0 (Some (User ''h'' (returns VUndef))) None False
           (queued True (VNum 7) recover_steps) = Some (None, w') \<and>
         history_extends (queued True (VNum 7) recover_steps) w') \<and>
   (\<exists>w'. run_tick (resolve 4) ((queued False (VNum 7) recover_steps)\<lparr>ticks := [0]\<rparr>)
           = Some (None, w') \<and>
         history_extends ((queued False (VNum 7) recover_steps)\<lparr>ticks := [0]\<rparr>) w') \<and>
   (ctx_next (resolve 3) 0 [VNum 1] delayed_world = Some (None, resumed_world) \<and>
    history_extends delayed_world resumed_world) \<and>
   (\<exists>w'. ctx_reject (resolve 3) 0 [VStr ''late''] delayed_world = Some (None, w') \<and>
         history_extends delayed_world w')"
proof -
  let ?W = "queued False (VNum 7) recover_steps"
  let ?I = "queued True (VNum 7) recover_steps"
  let ?T = "(queued False (VNum 7) recover_steps)\<lparr>ticks := [0]\<rparr>"
  have "\<exists>w'. resolve 4 0 [] ?W = Some (None, w') \<and> c_errors (chains w' 0) = [VStr ''e''] \<and>
          c_error (chains w' 0) = VUndef"
    by (simp add: recover_steps_def engine_defs program_defs)
  then obtain w1 where w1: "resolve 4 0 [] ?W = Some (None, w1)"
    "c_errors (chains w1 0) = [VStr ''e'']" "c_error (chains w1 0) = VUndef"
    by blast
  have "\<exists>w'. Chain_chain (resolve 5) 0 (Some (User ''h'' (returns VUndef))) None False ?I
          = Some (None, w')"
    by (simp add: recover_steps_def engine_defs program_defs)
  then obtain w2 where
    w2: "Chain_chain (resolve 5) 0 (Some (User ''h'' (returns VUndef))) None False ?I
          = Some (None, w2)"
    by blast
  have "\<exists>w'. run_tick (resolve 4) ?T = Some (None, w')"
    by (simp add: recover_steps_def engine_defs program_defs)
  then obtain w3 where w3: "run_tick (resolve 4) ?T = Some (None, w3)"
    by blast
  have w4: "ctx_next (resolve 3) 0 [VNum 1] delayed_world = Some (None, resumed_world)"
    using resumed_world_eval by simp
  have "\<exists>w'. ctx_reject (resolve 3) 0 [VStr ''late''] delayed_world = Some (None, w')"
    by (simp add: delayed_world_def engine_defs program_defs)
  then obtain w5 where
    w5: "ctx_reject (resolve 3) 0 [VStr ''late''] delayed_world = Some (None, w5)"
    by blast
  note t = error_history_records_handled_errors[where ex = None]
  from w1(1) have h1: "history_extends ?W w1"
    using t[where n = 4 and c = 0 and args = "[]" and w = ?W and w' = w1] by blast
  from w2 have h2: "history_extends ?I w2"
    using t[where n = 5 and c = 0 and fb = "Some (User ''h'' (returns VUndef))" and eb = None
        and nh = False and w = ?I and w' = w2] by blast
  from w3 have h3: "history_extends ?T w3"
    using t[where n = 4 and w = ?T and w' = w3] by blast
  from w4 have h4: "history_extends delayed_world resumed_world"
    using t[where n = 3 and x = 0 and args = "[VNum 1]" and w = delayed_world
        and w' = resumed_world] by blast
  from w5 have h5: "history_extends delayed_world w5"
    using t[where n = 3 and x = 0 and args = "[VStr ''late'']" and w = delayed_world
        and w' = w5] by blast
  from w1 h1 w2 h2 w3 h3 w4 h4 w5 h5 show ?thesis by blast
qed

text \<open>
  Claim C5 as it is stated fails: in \<open>start(7, s1)\<close> with \<open>s1\<close> throwing \<open>"boom"\<close> and no
  failure handler queued, \<open>"boom"\<close> is the chain's pending error after the drain and the
  error history is empty.
\<close>

theorem unhandled_error_not_in_history:
  "run_view (error_state 0) unhandled_program = Some (None, (VStr ''boom'', []))"
  by (simp add: unhandled_program_def error_state_def engine_defs program_defs)

section \<open>A handler that returns \<open>undefined\<close>\<close>

text \<open>
  Claim C9, evaluated on the code. In \<open>start(7, s1).chain(s2)\<close> with \<open>s1\<close> returning
  \<open>undefined\<close>, \<open>s1\<close> is called with 7 and \<open>s2\<close> is called with no argument at all; the
  chain's value 7 has been replaced by the empty array. (The \<open>undefined\<close> is replaced by
  \<open>[]\<close> before the test \<open>typeof value !== 'undefined'\<close> that guards the assignment to
  \<open>_value\<close>.)
\<close>

theorem undefined_return_clears_value:
  "run_view trace undefined_return_program =
     Some (None, [Call 0 ''s1'' False [VNum 7], Call 0 ''s2'' False []]) \<and>
   run_view (value_state 0) undefined_return_program =
     Some (None, (VArr [], VUndef, False, []))"
  by (simp add: undefined_return_program_def value_state_def engine_defs program_defs)

text \<open>The same on any chain about to be drained, whatever its value: the step after one
  that returns \<open>undefined\<close> is called without arguments.\<close>

lemma undefined_return_drops_arguments:
  assumes "ready c w" and "\<not> isChainable r"
    and "c_pending (chains w c) = [success_only n1 (returns VUndef), success_only n2 (returns r)]"
  shows "\<exists>w'. resolve (Suc (Suc (Suc n))) c [] w = Some (None, w') \<and>
      trace w' = trace w @ [Call c n1 False (as_args (c_value (chains w c))),
                            Call c n2 False []]"
  using assms
  by (simp add: ready_def engine_defs success_only_def returns_def)

section \<open>\<open>spread\<close>\<close>

text \<open>
  Claim C7. The queue holds the step of \<open>spread\<close> followed by the next step. When the
  inner \<open>resolve\<close> carries the three arguments 1, 2, 3, the next step is called with the
  three arguments 1, 2, 3; when it carries the single argument \<open>[1, 2, 3]\<close>, the next step
  is called with the three arguments 1, 2, 3 as well; when it carries the single argument
  5, the next step is called with the single argument 5. The same is observed on
  \<open>now([1, 2, 3]).spread(f)\<close>, \<open>now([[1, 2, 3]]).spread(f)\<close> and \<open>now(5).spread(f)\<close>.
\<close>

theorem spread_forwards_arguments:
  assumes "ready c w" and "\<not> isChainable r"
    and "c_pending (chains w c) = [spread_step, success_only nf (returns r)]"
  shows
    "(\<exists>w'. resolve (Suc (Suc (Suc n))) c [VNum 1, VNum 2, VNum 3] w
            = Some (None, w') \<and>
           trace w' = trace w @ [Call c ''_callback'' False [VNum 1, VNum 2, VNum 3],
                                 Call c nf False [VNum 1, VNum 2, VNum 3]]) \<and>
     (\<exists>w'. resolve (Suc (Suc (Suc n))) c [VArr [VNum 1, VNum 2, VNum 3]] w
            = Some (None, w') \<and>
           trace w' = trace w @ [Call c ''_callback'' False [VArr [VNum 1, VNum 2, VNum 3]],
                                 Call c nf False [VNum 1, VNum 2, VNum 3]]) \<and>
     (\<exists>w'. resolve (Suc (Suc (Suc n))) c [VNum 5] w = Some (None, w') \<and>
           trace w' = trace w @ [Call c ''_callback'' False [VNum 5],
                                 Call c nf False [VNum 5]]) \<and>
     run_view trace (spread_program (VArr [VNum 1, VNum 2, VNum 3])) =
       Some (None,
            [Call 0 ''_callback'' False [VNum 1, VNum 2, VNum 3],
             Call 0 ''f'' False [VNum 1, VNum 2, VNum 3]]) \<and>
     run_view trace (spread_program (VArr [VArr [VNum 1, VNum 2, VNum 3]])) =
       Some (None,
            [Call 0 ''_callback'' False [VArr [VNum 1, VNum 2, VNum 3]],
             Call 0 ''f'' False [VNum 1, VNum 2, VNum 3]]) \<and>
     run_view trace (spread_program (VNum 5)) =
       Some (None,
            [Call 0 ''_callback'' False [VNum 5], Call 0 ''f'' False [VNum 5]])"
proof (intro conjI)
  show "\<exists>w'. resolve (Suc (Suc (Suc n))) c [VNum 1, VNum 2, VNum 3] w
            = Some (None, w') \<and>
           trace w' = trace w @ [Call c ''_callback'' False [VNum 1, VNum 2, VNum 3],
                                 Call c nf False [VNum 1, VNum 2, VNum 3]]"
    using assms
    by (simp add: ready_def engine_defs success_only_def spread_step_def spread_callback_def
        returns_def)
next
  show "\<exists>w'. resolve (Suc (Suc (Suc n))) c [VArr [VNum 1, VNum 2, VNum 3]] w
            = Some (None, w') \<and>
           trace w' = trace w @ [Call c ''_callback'' False [VArr [VNum 1, VNum 2, VNum 3]],
                                 Call c nf False [VNum 1, VNum 2, VNum 3]]"
    using assms
    by (simp add: ready_def engine_defs success_only_def spread_step_def spread_callback_def
        returns_def)
next
  show "\<exists>w'. resolve (Suc (Suc (Suc n))) c [VNum 5] w = Some (None, w') \<and>
           trace w' = trace w @ [Call c ''_callback'' False [VNum 5],
                                 Call c nf False [VNum 5]]"
    using assms
    by (simp add: ready_def engine_defs success_only_def spread_step_def spread_callback_def
        returns_def)
next
  show "run_view trace (spread_program (VArr [VNum 1, VNum 2, VNum 3])) =
       Some (None,
            [Call 0 ''_callback'' False [VNum 1, VNum 2, VNum 3],
             Call 0 ''f'' False [VNum 1, VNum 2, VNum 3]])"
    by (simp add: spread_program_def engine_defs program_defs)
next
  show "run_view trace (spread_program (VArr [VArr [VNum 1, VNum 2, VNum 3]])) =
       Some (None,
            [Call 0 ''_callback'' False [VArr [VNum 1, VNum 2, VNum 3]],
             Call 0 ''f'' False [VNum 1, VNum 2, VNum 3]])"
    by (simp add: spread_program_def engine_defs program_defs)
next
  show "run_view trace (spread_program (VNum 5)) =
       Some (None,
            [Call 0 ''_callback'' False [VNum 5], Call 0 ''f'' False [VNum 5]])"
    by (simp add: spread_program_def engine_defs program_defs)
qed

theorem spread_forwards_arguments_witness:
  "ready 0 (queued False (VNum 7) spread_steps) \<and> \<not> isChainable VUndef \<and>
   c_pending (chains (queued False (VNum 7) spread_steps) 0) =
     [spread_step, success_only ''f'' (returns VUndef)] \<and>
   (\<exists>w'. resolve (Suc (Suc (Suc 0))) 0 [VNum 1, VNum 2, VNum 3]
           (queued False (VNum 7) spread_steps) = Some (None, w') \<and>
         trace w' = [Call 0 ''_callback'' False [VNum 1, VNum 2, VNum 3],
                     Call 0 ''f'' False [VNum 1, VNum 2, VNum 3]]) \<and>
   (\<exists>w'. resolve (Suc (Suc (Suc 0))) 0 [VArr [VNum 1, VNum 2, VNum 3]]
           (queued False (VNum 7) spread_steps) = Some (None, w') \<and>
         trace w' = [Call 0 ''_callback'' False [VArr [VNum 1, VNum 2, VNum 3]],
                     Call 0 ''f'' False [VNum 1, VNum 2, VNum 3]]) \<and>
   (\<exists>w'. resolve (Suc (Suc (Suc 0))) 0 [VNum 5] (queued False (VNum 7) spread_steps)
           = Some (None, w') \<and>
         trace w' = [Call 0 ''_callback'' False [VNum 5], Call 0 ''f'' False [VNum 5]])"
proof -
  let ?W = "queued False (VNum 7) spread_steps"
  have r: "ready 0 ?W" and t: "trace ?W = []"
    by (simp_all add: ready_def queued_def init_world_def empty_chain_def)
  have nc: "\<not> isChainable VUndef" by simp
  have p: "c_pending (chains ?W 0) = [spread_step, success_only ''f'' (returns VUndef)]"
    by (simp add: queued_def spread_steps_def)
  from spread_forwards_arguments[OF r nc p, of 0] r p show ?thesis
    by (simp add: t)
qed

section \<open>\<open>all\<close>\<close>

text \<open>
  Claim C6. \<open>all([])\<close>, in any state, returns a new chain in immediate mode that is not
  paused, has nothing queued, no error, and no value (\<open>undefined\<close>): a handler attached to
  it is called at once, with \<open>undefined\<close>. \<open>all([1, 2, now(3)])\<close>, in any state and with
  three units of fuel or more, returns a new chain that is not paused, has no error and
  carries the single argument \<open>[1, 2, 3]\<close>; a handler attached to it is called with
  \<open>[1, 2, 3]\<close>.
\<close>

theorem all_empty_and_plain_values:
  "all (resolve n) (VArr []) w =
     Some (Inr (nchains w),
           w\<lparr>chains := (chains w)(nchains w :=
                \<lparr>c_resolving = False, c_pending = [], c_unPending = [], c_errors = [],
                 c_value = VUndef, c_immediate = True, c_paused = False, c_error = VUndef\<rparr>),
             nchains := Suc (nchains w)\<rparr>) \<and>
   run_view trace all_empty_program = Some (None, [Call 0 ''h'' False [VUndef]]) \<and>
   (\<exists>w1 w2. now (resolve n) (VNum 3) None None w = Some (Inr (nchains w), w1) \<and>
            all (resolve (Suc (Suc (Suc n)))) (VArr [VNum 1, VNum 2, VChain (nchains w)]) w1
              = Some (Inr (Suc (nchains w)), w2) \<and>
            value_state (Suc (nchains w)) w2 =
              (VArr [VArr [VNum 1, VNum 2, VNum 3]], VUndef, False, [])) \<and>
   run_view trace all_values_program =
     Some (None,
           [Call 1 ''all.init'' False [VUndef], Call 0 ''all.success'' False [VNum 3],
            Call 1 ''h'' False [VArr [VNum 1, VNum 2, VNum 3]]])"
proof (intro conjI)
  show "all (resolve n) (VArr []) w =
     Some (Inr (nchains w),
           w\<lparr>chains := (chains w)(nchains w :=
                \<lparr>c_resolving = False, c_pending = [], c_unPending = [], c_errors = [],
                 c_value = VUndef, c_immediate = True, c_paused = False, c_error = VUndef\<rparr>),
             nchains := Suc (nchains w)\<rparr>)"
    by (simp add: all_def now_def start_def Chain_new_def Chain_fields_def Chain_chain_def
        Chain_resolve_def chain_push_def Let_def)
next
  show "run_view trace all_empty_program = Some (None, [Call 0 ''h'' False [VUndef]])"
    by (simp add: all_empty_program_def engine_defs program_defs)
next
  show "\<exists>w1 w2. now (resolve n) (VNum 3) None None w = Some (Inr (nchains w), w1) \<and>
            all (resolve (Suc (Suc (Suc n)))) (VArr [VNum 1, VNum 2, VChain (nchains w)]) w1
              = Some (Inr (Suc (nchains w)), w2) \<and>
            value_state (Suc (nchains w)) w2 =
              (VArr [VArr [VNum 1, VNum 2, VNum 3]], VUndef, False, [])"
    by (simp add: value_state_def engine_defs program_defs)
next
  show "run_view trace all_values_program =
     Some (None,
           [Call 1 ''all.init'' False [VUndef], Call 0 ''all.success'' False [VNum 3],
            Call 1 ''h'' False [VArr [VNum 1, VNum 2, VNum 3]]])"
    by (simp add: all_values_program_def engine_defs program_defs)
qed

text \<open>
  Claim C2, evaluated on the code. In \<open>all([now(1), fail("boom")])\<close> the observer of the
  failed entry records \<open>firstErr = "boom"\<close> and the per-index error array
  \<open>[undefined, "boom"]\<close>, and \<open>whenDone\<close> calls \<open>ctx.reject(firstErr, errResults)\<close>; but
  \<open>reject(reason)\<close> has one parameter, so the error array is dropped: a failure handler
  attached to the result chain is called with \<open>"boom"\<close> alone.
\<close>

theorem all_failure_drops_error_sequence:
  "run_view trace all_failure_program =
     Some (None,
           [Call 2 ''all.init'' False [VUndef], Call 0 ''all.success'' False [VNum 1],
            Call 1 ''all.failure'' True [VStr ''boom''], Call 2 ''h'' True [VStr ''boom'']]) \<and>
   run_view (all_errors 0) all_failure_program =
     Some (None, (VStr ''boom'', Some [VUndef, VStr ''boom'']))"
  by (simp add: all_failure_program_def all_errors_def engine_defs program_defs)

text \<open>The rest of what \<open>all\<close> does: \<open>whenDone\<close> acts only when every entry has been
  counted, and the results keep their index whatever the order of settlement.\<close>

lemma whenDone_waits:
  "a_complete (alls w a) \<noteq> a_len (alls w a) \<Longrightarrow> whenDone R a w = Some (None, w)"
  by (simp add: whenDone_def)

lemma all_results_keep_index:
  "run_view trace all_order_program =
     Some (None,
           [Call 2 ''all.init'' False [VUndef], Call 1 ''all.success'' False [VNum 2],
            Call 0 ''all.success'' False [VNum 1],
            Call 2 ''h'' False [VArr [VNum 1, VNum 2]]])"
  by (simp add: all_order_program_def engine_defs program_defs)

end
